theory Spec2Isabelle
  imports Complex_Main
begin

section \<open>Python and numpy values\<close>

text \<open>
  The tables of \<^verbatim>\<open>finite_mdp.py\<close> are numpy arrays built from Python ints and floats.
  The program never does arithmetic on a number: it stores, copies and compares them, and
  numpy converts them to one element type when it builds an array. A finite float is
  carried as the real number it denotes, and \<open>NanV\<close> is the float \<^verbatim>\<open>nan\<close>, which is
  unequal to every number and to itself. The infinities are not represented.
\<close>

datatype scalar = IntV int | FloatV real | NanV

text \<open>A nested Python list of numbers, the form of a table inside a configuration.\<close>

datatype pyval = PNum scalar | PList "pyval list"

text \<open>
  The exceptions the program can raise. \<^verbatim>\<open>ValueError\<close> carries its message;
  \<open>NotModelled\<close> marks a run that leaves the fragment of numpy described here (an
  index expression that yields a sub-array where the program expects a number).
\<close>

datatype error = ValueError string | IndexError | NotModelled

text \<open>Sequencing of calls that may raise: the first exception ends the computation.\<close>

definition and_then :: "error + 'a \<Rightarrow> ('a \<Rightarrow> error + 'b) \<Rightarrow> error + 'b" where
  "and_then r f = (case r of Inl e \<Rightarrow> Inl e | Inr x \<Rightarrow> f x)"

text \<open>
  An \<^verbatim>\<open>ndarray\<close>: its shape and its elements in row-major order. Every array the
  functions below build has \<open>length (items a) = prod_list (shape a)\<close>.
\<close>

record ndarray =
  shape :: "nat list"
  items :: "scalar list"

definition np_size :: "ndarray \<Rightarrow> nat" where
  "np_size a = prod_list (shape a)"

definition np_zeros :: "nat list \<Rightarrow> ndarray" where
  "np_zeros sh = \<lparr>shape = sh, items = replicate (prod_list sh) (FloatV 0)\<rparr>"

definition is_float :: "scalar \<Rightarrow> bool" where
  "is_float x = (case x of IntV _ \<Rightarrow> False | FloatV _ \<Rightarrow> True | NanV \<Rightarrow> True)"

text \<open>The value of a number; every use below treats \<open>NanV\<close> before it asks for a value.\<close>

definition to_real :: "scalar \<Rightarrow> real" where
  "to_real x = (case x of IntV i \<Rightarrow> of_int i | FloatV r \<Rightarrow> r | NanV \<Rightarrow> 0)"


text \<open>Truth value of a number, as \<^verbatim>\<open>or\<close> and \<^verbatim>\<open>if\<close> read it: false for zero only.\<close>

definition truthy :: "scalar \<Rightarrow> bool" where
  "truthy x = (x = NanV \<or> to_real x \<noteq> 0)"

text \<open>The shape numpy discovers for a nested list, read along the first elements.\<close>

fun py_shape :: "pyval \<Rightarrow> nat list" where
  "py_shape (PNum _) = []"
| "py_shape (PList []) = [0]"
| "py_shape (PList (x # xs)) = Suc (length xs) # py_shape x"

text \<open>A nested list is rectangular with shape \<open>sh\<close>.\<close>

fun conforms :: "nat list \<Rightarrow> pyval \<Rightarrow> bool" where
  "conforms sh (PNum _) = (sh = [])"
| "conforms sh (PList xs) =
     (case sh of [] \<Rightarrow> False
      | n # ns \<Rightarrow> length xs = n \<and> (\<forall>x \<in> set xs. conforms ns x))"

fun leaves :: "pyval \<Rightarrow> scalar list" where
  "leaves (PNum x) = [x]"
| "leaves (PList xs) = concat (map leaves xs)"

text \<open>
  A \<^verbatim>\<open>float64\<close> has a significand of 53 bits. An integer with more bits is rounded to the
  nearest multiple of the power of two that its excess bits span, a tie going to the even
  neighbour.
\<close>

function excess_bits :: "nat \<Rightarrow> nat" where
  "excess_bits n = (if n < 2 ^ 53 then 0 else Suc (excess_bits (n div 2)))"
  by pat_completeness auto
termination
  by (relation "measure id") auto

declare excess_bits.simps [simp del]

definition int_to_float64 :: "int \<Rightarrow> real" where
  "int_to_float64 i =
     (let n = nat \<bar>i\<bar>;
          k = excess_bits n;
          q = n div 2 ^ k;
          r = n mod 2 ^ k;
          q' = (if 2 ^ k < 2 * r \<or> (2 * r = 2 ^ k \<and> odd q) then q + 1 else q)
      in (if i < 0 then - real (q' * 2 ^ k) else real (q' * 2 ^ k)))"

definition to_float64 :: "scalar \<Rightarrow> scalar" where
  "to_float64 x = (case x of IntV i \<Rightarrow> FloatV (int_to_float64 i) | FloatV r \<Rightarrow> x | NanV \<Rightarrow> x)"

definition below_int64 :: "scalar \<Rightarrow> bool" where
  "below_int64 x = (case x of IntV i \<Rightarrow> i < - (2 ^ 63) | FloatV _ \<Rightarrow> False | NanV \<Rightarrow> False)"

definition above_int64 :: "scalar \<Rightarrow> bool" where
  "above_int64 x = (case x of IntV i \<Rightarrow> 2 ^ 63 \<le> i | FloatV _ \<Rightarrow> False | NanV \<Rightarrow> False)"

definition above_uint64 :: "scalar \<Rightarrow> bool" where
  "above_uint64 x = (case x of IntV i \<Rightarrow> 2 ^ 64 \<le> i | FloatV _ \<Rightarrow> False | NanV \<Rightarrow> False)"

definition negative_int :: "scalar \<Rightarrow> bool" where
  "negative_int x = (case x of IntV i \<Rightarrow> i < 0 | FloatV _ \<Rightarrow> False | NanV \<Rightarrow> False)"

text \<open>
  One element type per array. An integer that fits neither \<^verbatim>\<open>int64\<close> nor \<^verbatim>\<open>uint64\<close>
  makes an array of Python objects, which keeps every leaf as it is. Otherwise a single float
  among the leaves makes them all \<^verbatim>\<open>float64\<close>, and so does an integer beyond \<^verbatim>\<open>int64\<close>
  beside a negative one; integers alone that fit \<^verbatim>\<open>int64\<close>, or \<^verbatim>\<open>uint64\<close>, stay
  integers.
\<close>

definition unify :: "scalar list \<Rightarrow> scalar list" where
  "unify xs =
     (if \<exists>x \<in> set xs. below_int64 x \<or> above_uint64 x then xs
      else if (\<exists>x \<in> set xs. is_float x) \<or>
              ((\<exists>x \<in> set xs. above_int64 x) \<and> (\<exists>x \<in> set xs. negative_int x))
        then map to_float64 xs
      else xs)"

text \<open>
  \<^verbatim>\<open>np.array(v)\<close> for a nested list of numbers. A rectangular list becomes a numeric
  array. A ragged list is rejected as numpy 1.24 and later do; earlier releases reject some
  ragged lists and wrap others into arrays of Python objects, which are outside this model.
\<close>

definition np_array :: "pyval \<Rightarrow> error + ndarray" where
  "np_array v =
     (if conforms (py_shape v) v
      then Inr \<lparr>shape = py_shape v, items = unify (leaves v)\<rparr>
      else Inl (ValueError ''inhomogeneous shape''))"

text \<open>\<^verbatim>\<open>a.tolist()\<close>: the elements regrouped along the axes.\<close>

fun nest :: "nat list \<Rightarrow> scalar list \<Rightarrow> pyval" where
  "nest [] xs = (case xs of [] \<Rightarrow> PList [] | x # _ \<Rightarrow> PNum x)"
| "nest (n # ns) xs =
     PList (map (\<lambda>i. nest ns (take (prod_list ns) (drop (i * prod_list ns) xs))) [0..<n])"

definition tolist :: "ndarray \<Rightarrow> pyval" where
  "tolist a = nest (shape a) (items a)"

text \<open>An index along an axis of length \<open>n\<close>; a negative index counts from the end.\<close>

definition norm_index :: "nat \<Rightarrow> int \<Rightarrow> error + nat" where
  "norm_index n i =
     (let j = (if i < 0 then i + int n else i)
      in if 0 \<le> j \<and> j < int n then Inr (nat j) else Inl IndexError)"

text \<open>Only an integer indexes an array; a float raises \<^verbatim>\<open>IndexError\<close>.\<close>

definition as_index :: "scalar \<Rightarrow> error + int" where
  "as_index x = (case x of IntV i \<Rightarrow> Inr i | FloatV _ \<Rightarrow> Inl IndexError | NanV \<Rightarrow> Inl IndexError)"

text \<open>\<^verbatim>\<open>a[s]\<close> where the program expects a number.\<close>

definition getitem1 :: "ndarray \<Rightarrow> scalar \<Rightarrow> error + scalar" where
  "getitem1 a s =
     (case shape a of
        [] \<Rightarrow> Inl IndexError
      | n # rest \<Rightarrow>
          and_then (as_index s) (\<lambda>si.
          and_then (norm_index n si) (\<lambda>i.
            if rest = [] \<and> i < length (items a) then Inr (items a ! i) else Inl NotModelled)))"

text \<open>\<^verbatim>\<open>a[s, action]\<close> where the program expects a number.\<close>

definition getitem2 :: "ndarray \<Rightarrow> scalar \<Rightarrow> int \<Rightarrow> error + scalar" where
  "getitem2 a s action =
     (case shape a of
        n # m # rest \<Rightarrow>
          and_then (as_index s) (\<lambda>si.
          and_then (norm_index n si) (\<lambda>i.
          and_then (norm_index m action) (\<lambda>j.
            if rest = [] \<and> i * m + j < length (items a) then Inr (items a ! (i * m + j))
            else Inl NotModelled)))
      | _ \<Rightarrow> Inl IndexError)"

text \<open>\<^verbatim>\<open>a[s, action, :]\<close>: the sub-array behind the first two axes.\<close>

definition getitem_row :: "ndarray \<Rightarrow> scalar \<Rightarrow> int \<Rightarrow> error + ndarray" where
  "getitem_row a s action =
     (case shape a of
        n # m # k # rest \<Rightarrow>
          and_then (as_index s) (\<lambda>si.
          and_then (norm_index n si) (\<lambda>i.
          and_then (norm_index m action) (\<lambda>j.
            Inr \<lparr>shape = k # rest,
                 items = take (prod_list (k # rest))
                           (drop ((i * m + j) * prod_list (k # rest)) (items a))\<rparr>)))
      | _ \<Rightarrow> Inl IndexError)"

section \<open>Configurations\<close>

text \<open>
  A configuration is a Python dict read at the keys \<^verbatim>\<open>mode\<close>, \<^verbatim>\<open>transition\<close>,
  \<^verbatim>\<open>reward\<close>, \<^verbatim>\<open>terminal\<close> and \<^verbatim>\<open>random\<close>; \<open>None\<close> is an absent key.
\<close>

record config =
  cfg_mode :: "string option"
  cfg_transition :: "pyval option"
  cfg_reward :: "pyval option"
  cfg_terminal :: "pyval option"
  cfg_random :: "bool option"

section \<open>The random generator\<close>

text \<open>
  \<^verbatim>\<open>np_random\<close> is a numpy \<^verbatim>\<open>RandomState\<close>. Its state is the stream of raw outputs still
  to come; each draw consumes one. \<^verbatim>\<open>random_sample\<close> returns a multiple of \<open>2\<^sup>-\<^sup>5\<^sup>3\<close>
  in \<open>[0, 1)\<close>, and a draw from \<^verbatim>\<open>range(n)\<close> returns an integer in \<open>[0, n)\<close>.
\<close>

type_synonym rng = "nat \<Rightarrow> nat"

definition rng_next :: "rng \<Rightarrow> nat \<times> rng" where
  "rng_next r = (r 0, \<lambda>k. r (Suc k))"

definition random_sample :: "rng \<Rightarrow> real \<times> rng" where
  "random_sample r = (case rng_next r of (w, r') \<Rightarrow> (real (w mod 2 ^ 53) / 2 ^ 53, r'))"

definition randint :: "nat \<Rightarrow> rng \<Rightarrow> int \<times> rng" where
  "randint n r = (case rng_next r of (w, r') \<Rightarrow> (int (w mod n), r'))"

fun draws :: "(rng \<Rightarrow> scalar \<times> rng) \<Rightarrow> nat \<Rightarrow> rng \<Rightarrow> scalar list \<times> rng" where
  "draws g 0 r = ([], r)"
| "draws g (Suc k) r =
     (case g r of (x, r') \<Rightarrow> case draws g k r' of (xs, r'') \<Rightarrow> (x # xs, r''))"

text \<open>
  \<^verbatim>\<open>np_random.rand(*sh)\<close>: an array of shape \<open>sh\<close> of uniform samples. For the empty
  shape numpy returns a Python float in place of an array; it has the same shape and value
  and is kept here as the array of no axes. The two differ in one respect only: a Python
  float has no \<^verbatim>\<open>tolist\<close>, so the program cannot serialise a model whose table was redrawn
  with the empty shape. No table of an MDP has the empty shape.
\<close>

definition rand :: "nat list \<Rightarrow> rng \<Rightarrow> ndarray \<times> rng" where
  "rand sh r =
     (case draws (\<lambda>r. case random_sample r of (u, r') \<Rightarrow> (FloatV u, r')) (prod_list sh) r of
        (xs, r') \<Rightarrow> (\<lparr>shape = sh, items = xs\<rparr>, r'))"

text \<open>\<^verbatim>\<open>np_random.choice(range(n), size=sh)\<close>: numpy refuses to draw from an empty range
  unless no sample is asked for.\<close>

definition choice_range :: "nat \<Rightarrow> nat list \<Rightarrow> rng \<Rightarrow> error + (ndarray \<times> rng)" where
  "choice_range n sh r =
     (if n = 0 \<and> prod_list sh \<noteq> 0 then Inl (ValueError ''a must be non-empty'')
      else case draws (\<lambda>r. case randint n r of (i, r') \<Rightarrow> (IntV i, r')) (prod_list sh) r of
        (xs, r') \<Rightarrow> Inr (\<lparr>shape = sh, items = xs\<rparr>, r'))"

fun cumsum :: "real \<Rightarrow> real list \<Rightarrow> real list" where
  "cumsum acc [] = []"
| "cumsum acc (x # xs) = (acc + x) # cumsum (acc + x) xs"

text \<open>\<^verbatim>\<open>cdf.searchsorted(u, side='right')\<close>: the number of leading entries \<open>\<le> u\<close> of a
  non-decreasing list.\<close>

fun searchsorted_right :: "real list \<Rightarrow> real \<Rightarrow> nat" where
  "searchsorted_right [] u = 0"
| "searchsorted_right (c # cs) u = (if c \<le> u then Suc (searchsorted_right cs u) else 0)"

text \<open>
  \<^verbatim>\<open>np_random.choice(np.arange(n), p=p)\<close>: numpy validates \<open>p\<close>, normalises its
  cumulative sums by the last one, and looks one uniform sample up in them.
\<close>

definition choice_p :: "nat \<Rightarrow> ndarray \<Rightarrow> rng \<Rightarrow> error + (scalar \<times> rng)" where
  "choice_p n p r =
     (if n = 0 then Inl (ValueError ''a must be non-empty'')
      else if length (shape p) \<noteq> 1 then Inl (ValueError ''p must be 1-dimensional'')
      else if np_size p \<noteq> n then Inl (ValueError ''a and p must have same size'')
      else if NanV \<in> set (items p) then Inl (ValueError ''probabilities contain NaN'')
      else let ps = map to_real (items p) in
        if \<exists>x \<in> set ps. x < 0 then Inl (ValueError ''probabilities are not non-negative'')
        else if \<bar>sum_list ps - 1\<bar> > 1 / 2 ^ 26
          then Inl (ValueError ''probabilities do not sum to 1'')
        else let cdf = cumsum 0 ps; cdf' = map (\<lambda>c. c / last cdf) cdf in
          case random_sample r of (u, r') \<Rightarrow>
            Inr (IntV (int (searchsorted_right cdf' u)), r'))"

section \<open>The MDP classes\<close>

datatype variant = Deterministic | Stochastic

text \<open>The fields of \<^verbatim>\<open>MDP\<close>; \<open>variant\<close> is the class of the object.\<close>

record MDP =
  variant :: variant
  state :: scalar
  transition :: ndarray
  reward :: ndarray
  terminal :: ndarray

definition reset :: "MDP \<Rightarrow> scalar \<times> MDP" where
  "reset m = (IntV 0, m\<lparr>state := IntV 0\<rparr>)"

text \<open>\<^verbatim>\<open>DeterministicMDP.__init__\<close>; \<open>None\<close> is the default argument.\<close>

definition DeterministicMDP :: "ndarray \<Rightarrow> ndarray \<Rightarrow> ndarray option \<Rightarrow> error + MDP" where
  "DeterministicMDP tr rw te =
     (let object = (\<lambda>t. \<lparr>variant = Deterministic, state = IntV 0, transition = tr,
                          reward = rw, terminal = t\<rparr>);
          zeros = (case shape tr of
                     [] \<Rightarrow> Inl IndexError
                   | n # _ \<Rightarrow> Inr (object (np_zeros [n])))
      in case te of
           None \<Rightarrow> zeros
         | Some t \<Rightarrow> if np_size t = 0 then zeros else Inr (object t))"

definition StochasticMDP :: "ndarray \<Rightarrow> ndarray \<Rightarrow> ndarray option \<Rightarrow> error + MDP" where
  "StochasticMDP tr rw te =
     (case DeterministicMDP tr rw te of
        Inl e \<Rightarrow> Inl e
      | Inr m \<Rightarrow> Inr (m\<lparr>variant := Stochastic\<rparr>))"

definition mode_tag :: "variant \<Rightarrow> string" where
  "mode_tag v = (case v of Deterministic \<Rightarrow> ''deterministic'' | Stochastic \<Rightarrow> ''stochastic'')"

text \<open>\<^verbatim>\<open>to_config\<close> of both classes: the stochastic one overwrites the mode tag of the
  inherited result.\<close>

definition DeterministicMDP_to_config :: "MDP \<Rightarrow> config" where
  "DeterministicMDP_to_config m =
     \<lparr>cfg_mode = Some ''deterministic'',
      cfg_transition = Some (tolist (transition m)),
      cfg_reward = Some (tolist (reward m)),
      cfg_terminal = Some (tolist (terminal m)),
      cfg_random = None\<rparr>"

definition StochasticMDP_to_config :: "MDP \<Rightarrow> config" where
  "StochasticMDP_to_config m = (DeterministicMDP_to_config m)\<lparr>cfg_mode := Some ''stochastic''\<rparr>"

definition to_config :: "MDP \<Rightarrow> config" where
  "to_config m =
     (case variant m of
        Deterministic \<Rightarrow> DeterministicMDP_to_config m
      | Stochastic \<Rightarrow> StochasticMDP_to_config m)"

text \<open>The result of \<^verbatim>\<open>step\<close>: next state, reward, done, info.\<close>

type_synonym step_result = "scalar \<times> scalar \<times> scalar \<times> config"

definition DeterministicMDP_step ::
    "MDP \<Rightarrow> int \<Rightarrow> rng \<Rightarrow> error + (step_result \<times> MDP \<times> rng)" where
  "DeterministicMDP_step m action rnd =
     and_then (getitem2 (reward m) (state m) action) (\<lambda>rew.
     and_then (getitem1 (terminal m) (state m)) (\<lambda>done.
     and_then (getitem2 (transition m) (state m) action) (\<lambda>s'.
       let m' = m\<lparr>state := s'\<rparr>
       in Inr ((state m', rew, done, to_config m'), m', rnd))))"

definition StochasticMDP_step ::
    "MDP \<Rightarrow> int \<Rightarrow> rng \<Rightarrow> error + (step_result \<times> MDP \<times> rng)" where
  "StochasticMDP_step m action rnd =
     and_then (getitem2 (reward m) (state m) action) (\<lambda>rew.
     and_then (getitem_row (transition m) (state m) action) (\<lambda>probs.
     and_then (getitem1 (terminal m) (state m)) (\<lambda>done.
     and_then (case shape (transition m) of
                 [] \<Rightarrow> Inl IndexError
               | n # _ \<Rightarrow> choice_p n probs rnd) (\<lambda>(s', r').
       let m' = m\<lparr>state := s'\<rparr>
       in Inr ((state m', rew, done, to_config m'), m', r')))))"

definition step :: "MDP \<Rightarrow> int \<Rightarrow> rng \<Rightarrow> error + (step_result \<times> MDP \<times> rng)" where
  "step m action rnd =
     (case variant m of
        Deterministic \<Rightarrow> DeterministicMDP_step m action rnd
      | Stochastic \<Rightarrow> StochasticMDP_step m action rnd)"

text \<open>\<^verbatim>\<open>randomize\<close> of both classes.\<close>

definition DeterministicMDP_randomize :: "MDP \<Rightarrow> rng \<Rightarrow> error + (MDP \<times> rng)" where
  "DeterministicMDP_randomize m rnd =
     (case shape (transition m) of
        [] \<Rightarrow> Inl IndexError
      | n # _ \<Rightarrow>
          and_then (choice_range n (shape (transition m)) rnd) (\<lambda>(tr, r').
            case rand (shape (reward m)) r' of
              (rw, r'') \<Rightarrow> Inr (m\<lparr>transition := tr, reward := rw\<rparr>, r'')))"

definition StochasticMDP_randomize :: "MDP \<Rightarrow> rng \<Rightarrow> error + (MDP \<times> rng)" where
  "StochasticMDP_randomize m rnd =
     (case rand (shape (transition m)) rnd of
        (tr, r') \<Rightarrow>
          case rand (shape (reward m)) r' of
            (rw, r'') \<Rightarrow> Inr (m\<lparr>transition := tr, reward := rw\<rparr>, r''))"

definition randomize :: "MDP \<Rightarrow> rng \<Rightarrow> error + (MDP \<times> rng)" where
  "randomize m rnd =
     (case variant m of
        Deterministic \<Rightarrow> DeterministicMDP_randomize m rnd
      | Stochastic \<Rightarrow> StochasticMDP_randomize m rnd)"

text \<open>\<^verbatim>\<open>update\<close>, inherited by both classes: one assignment per key present.\<close>

definition update :: "MDP \<Rightarrow> config \<Rightarrow> error + MDP" where
  "update m c =
     and_then (case cfg_transition c of
                 None \<Rightarrow> Inr m
               | Some v \<Rightarrow> and_then (np_array v) (\<lambda>a. Inr (m\<lparr>transition := a\<rparr>))) (\<lambda>m1.
     and_then (case cfg_reward c of
                 None \<Rightarrow> Inr m1
               | Some v \<Rightarrow> and_then (np_array v) (\<lambda>a. Inr (m1\<lparr>reward := a\<rparr>))) (\<lambda>m2.
     case cfg_terminal c of
       None \<Rightarrow> Inr m2
     | Some v \<Rightarrow> and_then (np_array v) (\<lambda>a. Inr (m2\<lparr>terminal := a\<rparr>))))"

text \<open>\<^verbatim>\<open>config.get(key, [])\<close> for a table.\<close>

definition get_table :: "pyval option \<Rightarrow> pyval" where
  "get_table v = (case v of None \<Rightarrow> PList [] | Some t \<Rightarrow> t)"

definition ConfigurationError :: error where
  "ConfigurationError = ValueError ''Unknown MDP mode in configuration''"

definition from_config :: "config \<Rightarrow> rng \<Rightarrow> error + (MDP \<times> rng)" where
  "from_config c rnd =
     and_then (np_array (get_table (cfg_transition c))) (\<lambda>tr.
     and_then (np_array (get_table (cfg_reward c))) (\<lambda>rw.
     and_then (np_array (get_table (cfg_terminal c))) (\<lambda>te.
     and_then (if cfg_mode c = Some ''deterministic'' then DeterministicMDP tr rw (Some te)
               else if cfg_mode c = Some ''stochastic'' then StochasticMDP tr rw (Some te)
               else Inl ConfigurationError) (\<lambda>m.
       if (case cfg_random c of None \<Rightarrow> False | Some b \<Rightarrow> b) then randomize m rnd
       else Inr (m, rnd)))))"

text \<open>A loop over a range whose body may raise.\<close>

fun for_each :: "'a list \<Rightarrow> ('a \<Rightarrow> 's \<Rightarrow> error + 's) \<Rightarrow> 's \<Rightarrow> error + 's" where
  "for_each [] body st = Inr st"
| "for_each (x # xs) body st = and_then (body x st) (for_each xs body)"

text \<open>\<^verbatim>\<open>int(x)\<close> truncates a float towards zero and refuses \<^verbatim>\<open>nan\<close>.\<close>

definition py_int :: "scalar \<Rightarrow> error + int" where
  "py_int x =
     (case x of
        IntV i \<Rightarrow> Inr i
      | FloatV r \<Rightarrow> Inr (if 0 \<le> r then \<lfloor>r\<rfloor> else \<lceil>r\<rceil>)
      | NanV \<Rightarrow> Inl (ValueError ''cannot convert float NaN to integer''))"

text \<open>\<^verbatim>\<open>a[s, action, k] = 1\<close> on the array of floats that \<^verbatim>\<open>np.zeros\<close> made.\<close>

definition setitem3 :: "ndarray \<Rightarrow> int \<Rightarrow> int \<Rightarrow> int \<Rightarrow> error + ndarray" where
  "setitem3 a s action k =
     (case shape a of
        [n, m, l] \<Rightarrow>
          and_then (norm_index n s) (\<lambda>i.
          and_then (norm_index m action) (\<lambda>j.
          and_then (norm_index l k) (\<lambda>t.
            Inr (a\<lparr>items := (items a)[(i * m + j) * l + t := FloatV 1]\<rparr>))))
      | _ \<Rightarrow> Inl IndexError)"

definition from_deterministic :: "MDP \<Rightarrow> error + MDP" where
  "from_deterministic mdp =
     (case shape (transition mdp) of
        n # m # _ \<Rightarrow>
          and_then
            (for_each [0..<n] (\<lambda>s.
               for_each [0..<m] (\<lambda>a new_transition.
                 and_then (getitem2 (transition mdp) (IntV (int s)) (int a)) (\<lambda>t.
                 and_then (py_int t) (\<lambda>k.
                   setitem3 new_transition (int s) (int a) k))))
               (np_zeros [n, m, n]))
            (\<lambda>new_transition.
               StochasticMDP new_transition (reward mdp) (Some (terminal mdp)))
      | _ \<Rightarrow> Inl IndexError)"

section \<open>The environment\<close>

text \<open>
  The fields of \<^verbatim>\<open>FiniteMDP\<close> that \<^verbatim>\<open>reset\<close>, \<^verbatim>\<open>step\<close> and \<^verbatim>\<open>copy_with_config\<close>
  read or write. A record is a value, so \<^verbatim>\<open>copy.deepcopy\<close> is the identity on it.
\<close>

record FiniteMDP =
  np_random :: rng
  config :: config
  mdp :: MDP
  steps :: int

definition default_config :: config where
  "default_config =
     \<lparr>cfg_mode = Some ''deterministic'',
      cfg_transition = Some (PList [PList [PNum (IntV 0)]]),
      cfg_reward = Some (PList [PList [PNum (IntV 0)]]),
      cfg_terminal = None,
      cfg_random = None\<rparr>"

definition MAX_STEPS :: int where
  "MAX_STEPS = 10"

text \<open>The value of \<^verbatim>\<open>done or self.steps > MAX_STEPS\<close>: the left operand when it is true,
  else the comparison.\<close>

datatype flag = Num scalar | Bool bool

definition py_or :: "scalar \<Rightarrow> bool \<Rightarrow> flag" where
  "py_or d b = (if truthy d then Num d else Bool b)"

definition FiniteMDP_reset :: "FiniteMDP \<Rightarrow> scalar \<times> FiniteMDP" where
  "FiniteMDP_reset env =
     (case reset (mdp (env\<lparr>steps := 0\<rparr>)) of (s, m') \<Rightarrow> (s, env\<lparr>steps := 0, mdp := m'\<rparr>))"

definition FiniteMDP_step ::
    "FiniteMDP \<Rightarrow> int \<Rightarrow> error + ((scalar \<times> scalar \<times> flag \<times> config) \<times> FiniteMDP)" where
  "FiniteMDP_step env action =
     and_then (step (mdp env) action (np_random env)) (\<lambda>((s, rew, done, info), m', r').
       let done' = py_or done (steps env > MAX_STEPS);
           env' = env\<lparr>mdp := m', np_random := r', steps := steps env + 1\<rparr>
       in Inr ((s, rew, done', info), env'))"

definition copy_with_config :: "FiniteMDP \<Rightarrow> config \<Rightarrow> error + FiniteMDP" where
  "copy_with_config env c =
     (let env_copy = env\<lparr>config := c\<rparr>
      in and_then (update (mdp env_copy) c) (\<lambda>m'. Inr (env_copy\<lparr>mdp := m'\<rparr>)))"

section \<open>Well-formed models and concrete inputs\<close>

text \<open>
  The tables of a model with \<open>S\<close> states and \<open>A\<close> actions have the shapes the class
  docstrings give: transition and reward \<open>S \<times> A\<close>, terminal \<open>S\<close>.
\<close>

definition shaped :: "nat \<Rightarrow> nat \<Rightarrow> MDP \<Rightarrow> bool" where
  "shaped S A m \<longleftrightarrow>
     shape (transition m) = [S, A] \<and> length (items (transition m)) = S * A \<and>
     shape (reward m) = [S, A] \<and> length (items (reward m)) = S * A \<and>
     shape (terminal m) = [S] \<and> length (items (terminal m)) = S"

text \<open>The two-state configuration used as a running example, and the model built from it.\<close>

definition scenario :: config where
  "scenario =
     \<lparr>cfg_mode = Some ''deterministic'',
      cfg_transition = Some (PList [PList [PNum (IntV 1)], PList [PNum (IntV 0)]]),
      cfg_reward = Some (PList [PList [PNum (IntV 5)], PList [PNum (IntV 1)]]),
      cfg_terminal = Some (PList [PNum (IntV 0), PNum (IntV 1)]),
      cfg_random = None\<rparr>"

definition scenario_mdp :: MDP where
  "scenario_mdp =
     \<lparr>variant = Deterministic, state = IntV 0,
      transition = \<lparr>shape = [2, 1], items = [IntV 1, IntV 0]\<rparr>,
      reward = \<lparr>shape = [2, 1], items = [IntV 5, IntV 1]\<rparr>,
      terminal = \<lparr>shape = [2], items = [IntV 0, IntV 1]\<rparr>\<rparr>"

definition zero_rng :: rng where
  "zero_rng = (\<lambda>_. 0)"

text \<open>What a caller of \<open>step\<close> observes of the model: the result or the exception, and the
  model afterwards; the generator is left out.\<close>

definition outcome ::
    "error + (step_result \<times> MDP \<times> rng) \<Rightarrow> error + (step_result \<times> MDP)" where
  "outcome r = (case r of Inl e \<Rightarrow> Inl e | Inr (res, m', _) \<Rightarrow> Inr (res, m'))"

text \<open>A table that \<open>np_array\<close> accepts, and a configuration all of whose tables are such.\<close>

definition rectangular :: "pyval \<Rightarrow> bool" where
  "rectangular v = conforms (py_shape v) v"

definition convertible :: "config \<Rightarrow> bool" where
  "convertible c \<longleftrightarrow>
     rectangular (get_table (cfg_transition c)) \<and>
     rectangular (get_table (cfg_reward c)) \<and>
     rectangular (get_table (cfg_terminal c))"

text \<open>An environment holding the scenario's model, and a partial configuration that names
  the other mode and replaces the transition table by one of a different shape.\<close>

definition scenario_env :: FiniteMDP where
  "scenario_env = \<lparr>np_random = zero_rng, config = scenario, mdp = scenario_mdp, steps = 0\<rparr>"

definition override :: config where
  "override =
     \<lparr>cfg_mode = Some ''stochastic'',
      cfg_transition = Some (PList [PNum (IntV 7)]),
      cfg_reward = None,
      cfg_terminal = None,
      cfg_random = None\<rparr>"

text \<open>Every entry of a deterministic transition table is an integer state index below \<open>S\<close>.\<close>

definition targets_in_range :: "nat \<Rightarrow> MDP \<Rightarrow> bool" where
  "targets_in_range S m \<longleftrightarrow>
     (\<forall>x \<in> set (items (transition m)).
        case x of IntV t \<Rightarrow> 0 \<le> t \<and> t < int S | FloatV _ \<Rightarrow> False | NanV \<Rightarrow> False)"

definition all_zero :: "ndarray \<Rightarrow> bool" where
  "all_zero a \<longleftrightarrow> (\<forall>x \<in> set (items a). \<not> truthy x)"

text \<open>Consecutive \<open>step\<close> calls on an environment, one per action, collecting the results.\<close>

fun run ::
    "FiniteMDP \<Rightarrow> int list \<Rightarrow> error + ((scalar \<times> scalar \<times> flag \<times> config) list \<times> FiniteMDP)" where
  "run env [] = Inr ([], env)"
| "run env (a # as) =
     and_then (FiniteMDP_step env a) (\<lambda>(res, env').
     and_then (run env' as) (\<lambda>(rs, env''). Inr (res # rs, env'')))"

definition done_of :: "scalar \<times> scalar \<times> flag \<times> config \<Rightarrow> flag" where
  "done_of res = (case res of (_, _, d, _) \<Rightarrow> d)"

text \<open>The model that \<open>from_config\<close> builds from \<open>default_config\<close>, and an environment
  holding it.\<close>

definition default_mdp :: MDP where
  "default_mdp =
     \<lparr>variant = Deterministic, state = IntV 0,
      transition = \<lparr>shape = [1, 1], items = [IntV 0]\<rparr>,
      reward = \<lparr>shape = [1, 1], items = [IntV 0]\<rparr>,
      terminal = \<lparr>shape = [1], items = [FloatV 0]\<rparr>\<rparr>"

definition default_env :: FiniteMDP where
  "default_env = \<lparr>np_random = zero_rng, config = default_config, mdp = default_mdp, steps = 0\<rparr>"



text \<open>A distribution over \<open>n\<close> states with probability 1 on state \<open>t\<close> and 0 elsewhere.\<close>

definition one_hot :: "nat \<Rightarrow> nat \<Rightarrow> scalar list" where
  "one_hot n t = map (\<lambda>k. if k = t then FloatV 1 else FloatV 0) [0..<n]"






section \<open>Basic facts\<close>

lemma and_then_Inl [simp]: "and_then (Inl e) f = Inl e"
  by (simp add: and_then_def)

lemma and_then_Inr [simp]: "and_then (Inr x) f = f x"
  by (simp add: and_then_def)

lemma and_then_eq_Inr: "and_then r f = Inr y \<longleftrightarrow> (\<exists>x. r = Inr x \<and> f x = Inr y)"
  by (cases r) simp_all

lemma norm_index_in_range [simp]: "0 \<le> i \<Longrightarrow> i < int n \<Longrightarrow> norm_index n i = Inr (nat i)"
  by (simp add: norm_index_def)

lemma as_index_IntV [simp]: "as_index (IntV i) = Inr i"
  by (simp add: as_index_def)

lemma flat_index_less:
  assumes "i < n" "j < m"
  shows "i * m + j < n * (m::nat)"
proof -
  from assms have "i * m + j < i * m + m" by simp
  also have "\<dots> = Suc i * m" by simp
  also from assms have "\<dots> \<le> n * m" by (intro mult_le_mono1) simp
  finally show ?thesis .
qed

lemma getitem1_in_range:
  "shape a = [n] \<Longrightarrow> length (items a) = n \<Longrightarrow> 0 \<le> s \<Longrightarrow> s < int n
    \<Longrightarrow> getitem1 a (IntV s) = Inr (items a ! nat s)"
  by (simp add: getitem1_def)

lemma getitem2_in_range:
  assumes "shape a = [n, m]" "length (items a) = n * m"
    and "0 \<le> s" "s < int n" "0 \<le> j" "j < int m"
  shows "getitem2 a (IntV s) j = Inr (items a ! (nat s * m + nat j))"
proof -
  have "nat s * m + nat j < n * m"
    using assms by (intro flat_index_less) simp_all
  with assms show ?thesis by (simp add: getitem2_def)
qed

lemma from_config_scenario: "from_config scenario rnd = Inr (scenario_mdp, rnd)"
  by (simp add: from_config_def scenario_def scenario_mdp_def get_table_def np_array_def
      unify_def is_float_def below_int64_def above_uint64_def above_int64_def negative_int_def DeterministicMDP_def np_size_def)

section \<open>The deterministic step\<close>

lemma DeterministicMDP_step_in_range:
  assumes "shaped S A m" "state m = IntV s" "0 \<le> s" "s < int S" "0 \<le> a" "a < int A"
  shows "DeterministicMDP_step m a rnd =
     Inr ((items (transition m) ! (nat s * A + nat a),
           items (reward m) ! (nat s * A + nat a),
           items (terminal m) ! nat s,
           to_config (m\<lparr>state := items (transition m) ! (nat s * A + nat a)\<rparr>)),
          m\<lparr>state := items (transition m) ! (nat s * A + nat a)\<rparr>, rnd)"
  using assms
  by (simp add: DeterministicMDP_step_def shaped_def getitem2_in_range getitem1_in_range Let_def)

lemma scenario_first_step:
  "step (snd (reset scenario_mdp)) 0 rnd =
     Inr ((IntV 1, IntV 5, IntV 0, scenario), scenario_mdp\<lparr>state := IntV 1\<rparr>, rnd)"
  by (simp add: reset_def step_def scenario_mdp_def DeterministicMDP_step_def getitem2_def
      getitem1_def to_config_def DeterministicMDP_to_config_def tolist_def scenario_def upt_rec)

lemma scenario_second_step:
  "step (scenario_mdp\<lparr>state := IntV 1\<rparr>) 0 rnd =
     Inr ((IntV 0, IntV 1, IntV 1, scenario), scenario_mdp\<lparr>state := IntV 0\<rparr>, rnd)"
  by (simp add: step_def scenario_mdp_def DeterministicMDP_step_def getitem2_def
      getitem1_def to_config_def DeterministicMDP_to_config_def tolist_def scenario_def upt_rec)

text \<open>
  C1. On the two-state scenario, \<open>reset\<close> returns 0, the first \<open>step 0\<close> returns next
  state 1, reward 5 and a false done flag, and the second returns next state 0, reward 1 and
  a true done flag. In general, a deterministic model with tables of shape \<open>S \<times> A\<close>, in a
  state \<open>s < S\<close> and given an action \<open>a < A\<close>, returns the reward at \<open>(s, a)\<close> and the
  terminal flag at \<open>s\<close>, both read at the state before the move, and moves to the
  transition table's entry at \<open>(s, a)\<close>. From every state of every model, \<open>reset\<close>
  returns 0 and leaves the model in state 0 with everything else unchanged.
\<close>

theorem deterministic_step_reads_state_before_move:
  "(\<exists>m0. from_config scenario rnd = Inr (m0, rnd) \<and> fst (reset m0) = IntV 0 \<and>
      (\<exists>info1 m1. step (snd (reset m0)) 0 rnd = Inr ((IntV 1, IntV 5, IntV 0, info1), m1, rnd) \<and>
        \<not> truthy (IntV 0) \<and>
        (\<exists>info2 m2. step m1 0 rnd = Inr ((IntV 0, IntV 1, IntV 1, info2), m2, rnd) \<and>
          truthy (IntV 1)))) \<and>
   (\<forall>m S A s a. variant m = Deterministic \<and> shaped S A m \<and> state m = IntV s \<and>
        0 \<le> s \<and> s < int S \<and> 0 \<le> a \<and> a < int A \<longrightarrow>
      (\<exists>rew done s'.
         getitem2 (reward m) (state m) a = Inr rew \<and>
         rew = items (reward m) ! (nat s * A + nat a) \<and>
         getitem1 (terminal m) (state m) = Inr done \<and>
         done = items (terminal m) ! nat s \<and>
         getitem2 (transition m) (state m) a = Inr s' \<and>
         s' = items (transition m) ! (nat s * A + nat a) \<and>
         step m a rnd = Inr ((s', rew, done, to_config (m\<lparr>state := s'\<rparr>)), m\<lparr>state := s'\<rparr>, rnd))) \<and>
   (\<forall>m. reset m = (IntV 0, m\<lparr>state := IntV 0\<rparr>))"
proof (intro conjI allI impI)
  show "\<exists>m0. from_config scenario rnd = Inr (m0, rnd) \<and> fst (reset m0) = IntV 0 \<and>
      (\<exists>info1 m1. step (snd (reset m0)) 0 rnd = Inr ((IntV 1, IntV 5, IntV 0, info1), m1, rnd) \<and>
        \<not> truthy (IntV 0) \<and>
        (\<exists>info2 m2. step m1 0 rnd = Inr ((IntV 0, IntV 1, IntV 1, info2), m2, rnd) \<and>
          truthy (IntV 1)))"
    using scenario_first_step [of rnd] scenario_second_step [of rnd]
    by (simp add: from_config_scenario reset_def truthy_def to_real_def)
next
  fix m S A s a
  assume h: "variant m = Deterministic \<and> shaped S A m \<and> state m = IntV s \<and>
        0 \<le> s \<and> s < int S \<and> 0 \<le> a \<and> a < int A"
  then have "step m a rnd = DeterministicMDP_step m a rnd"
    by (simp add: step_def)
  with h show "\<exists>rew done s'.
         getitem2 (reward m) (state m) a = Inr rew \<and>
         rew = items (reward m) ! (nat s * A + nat a) \<and>
         getitem1 (terminal m) (state m) = Inr done \<and>
         done = items (terminal m) ! nat s \<and>
         getitem2 (transition m) (state m) a = Inr s' \<and>
         s' = items (transition m) ! (nat s * A + nat a) \<and>
         step m a rnd = Inr ((s', rew, done, to_config (m\<lparr>state := s'\<rparr>)), m\<lparr>state := s'\<rparr>, rnd)"
    by (simp add: DeterministicMDP_step_in_range [of S A m s a]
        getitem2_in_range [of _ S A] getitem1_in_range [of _ S] shaped_def)
next
  fix m
  show "reset m = (IntV 0, m\<lparr>state := IntV 0\<rparr>)"
    by (simp add: reset_def)
qed

theorem deterministic_step_reads_state_before_move_witness:
  "variant (scenario_mdp\<lparr>state := IntV 1\<rparr>) = Deterministic \<and>
   shaped 2 1 (scenario_mdp\<lparr>state := IntV 1\<rparr>) \<and>
   step (scenario_mdp\<lparr>state := IntV 1\<rparr>) 0 (\<lambda>_. 0) =
     Inr ((IntV 0, IntV 1, IntV 1, scenario), scenario_mdp\<lparr>state := IntV 0\<rparr>, \<lambda>_. 0) \<and>
   reset (scenario_mdp\<lparr>state := IntV 1\<rparr>) = (IntV 0, scenario_mdp)"
proof -
  let ?m = "scenario_mdp\<lparr>state := IntV 1\<rparr>"
  have h: "variant ?m = Deterministic \<and> shaped 2 1 ?m \<and> state ?m = IntV 1 \<and>
      (0::int) \<le> 1 \<and> (1::int) < int 2 \<and> (0::int) \<le> 0 \<and> (0::int) < int 1"
    by (simp add: shaped_def scenario_mdp_def)
  have "\<exists>rew done s'.
         getitem2 (reward ?m) (state ?m) 0 = Inr rew \<and>
         rew = items (reward ?m) ! (nat 1 * 1 + nat 0) \<and>
         getitem1 (terminal ?m) (state ?m) = Inr done \<and>
         done = items (terminal ?m) ! nat 1 \<and>
         getitem2 (transition ?m) (state ?m) 0 = Inr s' \<and>
         s' = items (transition ?m) ! (nat 1 * 1 + nat 0) \<and>
         step ?m 0 (\<lambda>_. 0) = Inr ((s', rew, done, to_config (?m\<lparr>state := s'\<rparr>)), ?m\<lparr>state := s'\<rparr>, \<lambda>_. 0)"
    using deterministic_step_reads_state_before_move [of "\<lambda>_. 0", THEN conjunct2,
        THEN conjunct1, rule_format, OF h] .
  then have "step ?m 0 (\<lambda>_. 0) =
      Inr ((IntV 0, IntV 1, IntV 1, to_config (scenario_mdp\<lparr>state := IntV 0\<rparr>)),
           scenario_mdp\<lparr>state := IntV 0\<rparr>, \<lambda>_. 0)"
    by (simp add: scenario_mdp_def)
  moreover have "to_config (scenario_mdp\<lparr>state := IntV 0\<rparr>) = scenario"
    by (simp add: scenario_mdp_def scenario_def to_config_def DeterministicMDP_to_config_def
        tolist_def upt_rec)
  moreover have "reset ?m = (IntV 0, scenario_mdp)"
    using deterministic_step_reads_state_before_move [of "\<lambda>_. 0", THEN conjunct2,
        THEN conjunct2, rule_format, of ?m]
    by (simp add: scenario_mdp_def)
  ultimately show ?thesis using h by simp
qed

text \<open>
  C7. The deterministic step is a function of the state, the tables and the action alone:
  two deterministic models with the same state and tables, stepped with the same action
  under any two generators, give the same result (or raise the same exception) and end as
  the same model; the generator comes back as it went in.
\<close>

theorem deterministic_step_independent_of_rng:
  "variant m1 = Deterministic \<and> variant m2 = Deterministic \<and> state m1 = state m2 \<and>
   transition m1 = transition m2 \<and> reward m1 = reward m2 \<and> terminal m1 = terminal m2 \<longrightarrow>
     outcome (step m1 a r1) = outcome (step m2 a r2) \<and>
     (\<forall>res m' r'. step m1 a r1 = Inr (res, m', r') \<longrightarrow> r' = r1)"
proof (intro impI)
  assume h: "variant m1 = Deterministic \<and> variant m2 = Deterministic \<and> state m1 = state m2 \<and>
   transition m1 = transition m2 \<and> reward m1 = reward m2 \<and> terminal m1 = terminal m2"
  then have eq: "m1 = m2" by simp
  have pass: "\<exists>f. \<forall>r. DeterministicMDP_step m1 a r = (case f of Inl e \<Rightarrow> Inl e | Inr (res, m') \<Rightarrow> Inr (res, m', r))"
    by (rule exI [of _ "outcome (DeterministicMDP_step m1 a r1)"])
      (auto simp: DeterministicMDP_step_def outcome_def and_then_def Let_def split: sum.splits)
  then obtain f where f: "\<And>r. DeterministicMDP_step m1 a r =
      (case f of Inl e \<Rightarrow> Inl e | Inr (res, m') \<Rightarrow> Inr (res, m', r))"
    by blast
  from h have s1: "\<And>r. step m1 a r = DeterministicMDP_step m1 a r"
    by (simp add: step_def)
  have "outcome (step m1 a r1) = outcome (step m1 a r2)"
    unfolding s1 f [of r1] f [of r2] by (simp add: outcome_def split: sum.splits prod.splits)
  moreover have "\<forall>res m' r'. step m1 a r1 = Inr (res, m', r') \<longrightarrow> r' = r1"
    unfolding s1 f [of r1] by (auto split: sum.splits prod.splits)
  ultimately show "outcome (step m1 a r1) = outcome (step m2 a r2) \<and>
     (\<forall>res m' r'. step m1 a r1 = Inr (res, m', r') \<longrightarrow> r' = r1)"
    using eq by simp
qed

theorem deterministic_step_independent_of_rng_witness:
  "outcome (step scenario_mdp 0 zero_rng) = outcome (step scenario_mdp 0 (\<lambda>k. k + 7)) \<and>
   outcome (step scenario_mdp 0 zero_rng) =
     Inr ((IntV 1, IntV 5, IntV 0, scenario), scenario_mdp\<lparr>state := IntV 1\<rparr>)"
proof -
  have h: "variant scenario_mdp = Deterministic \<and> variant scenario_mdp = Deterministic \<and>
      state scenario_mdp = state scenario_mdp \<and> transition scenario_mdp = transition scenario_mdp \<and>
      reward scenario_mdp = reward scenario_mdp \<and> terminal scenario_mdp = terminal scenario_mdp"
    by (simp add: scenario_mdp_def)
  have "outcome (step scenario_mdp 0 zero_rng) = outcome (step scenario_mdp 0 (\<lambda>k. k + 7))"
    using deterministic_step_independent_of_rng
      [of scenario_mdp scenario_mdp 0 zero_rng "\<lambda>k. k + 7", rule_format, OF h]
    by simp
  moreover have "outcome (step scenario_mdp 0 zero_rng) =
     Inr ((IntV 1, IntV 5, IntV 0, scenario), scenario_mdp\<lparr>state := IntV 1\<rparr>)"
    using scenario_first_step [of zero_rng] by (simp add: reset_def outcome_def scenario_mdp_def)
  ultimately show ?thesis by simp
qed

section \<open>Partial reconfiguration\<close>

lemma np_array_rectangular:
  "rectangular v \<Longrightarrow> np_array v = Inr \<lparr>shape = py_shape v, items = unify (leaves v)\<rparr>"
  by (simp add: np_array_def rectangular_def)

lemma rectangular_empty [simp]: "rectangular (PList [])"
  by (simp add: rectangular_def)

lemma update_result:
  assumes "convertible c"
  shows "update m c = Inr (m\<lparr>
      transition := (case cfg_transition c of None \<Rightarrow> transition m
                     | Some v \<Rightarrow> \<lparr>shape = py_shape v, items = unify (leaves v)\<rparr>),
      reward := (case cfg_reward c of None \<Rightarrow> reward m
                 | Some v \<Rightarrow> \<lparr>shape = py_shape v, items = unify (leaves v)\<rparr>),
      terminal := (case cfg_terminal c of None \<Rightarrow> terminal m
                   | Some v \<Rightarrow> \<lparr>shape = py_shape v, items = unify (leaves v)\<rparr>)\<rparr>)"
  using assms
  by (simp add: update_def convertible_def get_table_def np_array_rectangular
      split: option.splits)

lemma update_variant: "update m c = Inr m' \<Longrightarrow> variant m' = variant m"
  by (auto simp: update_def and_then_eq_Inr split: option.splits)

lemma convertible_override: "convertible override"
  by (simp add: convertible_def override_def get_table_def rectangular_def)

text \<open>
  C8. \<open>update\<close> with a partial configuration whose tables numpy accepts returns a model in
  which each table whose key is present is the array of the supplied value, and each table
  whose key is absent, the state and the class are as before. The shapes of the supplied
  tables are not compared with anything.
\<close>

theorem update_replaces_present_tables_only:
  "convertible c \<longrightarrow>
     (\<exists>m'. update m c = Inr m' \<and> state m' = state m \<and> variant m' = variant m \<and>
        (case cfg_transition c of None \<Rightarrow> transition m' = transition m
         | Some v \<Rightarrow> np_array v = Inr (transition m')) \<and>
        (case cfg_reward c of None \<Rightarrow> reward m' = reward m
         | Some v \<Rightarrow> np_array v = Inr (reward m')) \<and>
        (case cfg_terminal c of None \<Rightarrow> terminal m' = terminal m
         | Some v \<Rightarrow> np_array v = Inr (terminal m')))"
proof
  assume c: "convertible c"
  then have r: "\<And>v. cfg_transition c = Some v \<Longrightarrow> rectangular v"
    "\<And>v. cfg_reward c = Some v \<Longrightarrow> rectangular v"
    "\<And>v. cfg_terminal c = Some v \<Longrightarrow> rectangular v"
    by (simp_all add: convertible_def get_table_def)
  show "\<exists>m'. update m c = Inr m' \<and> state m' = state m \<and> variant m' = variant m \<and>
        (case cfg_transition c of None \<Rightarrow> transition m' = transition m
         | Some v \<Rightarrow> np_array v = Inr (transition m')) \<and>
        (case cfg_reward c of None \<Rightarrow> reward m' = reward m
         | Some v \<Rightarrow> np_array v = Inr (reward m')) \<and>
        (case cfg_terminal c of None \<Rightarrow> terminal m' = terminal m
         | Some v \<Rightarrow> np_array v = Inr (terminal m'))"
    unfolding update_result [OF c]
    by (simp add: r np_array_rectangular split: option.splits)
qed

theorem update_replaces_present_tables_only_witness:
  "convertible override \<and>
   update (scenario_mdp\<lparr>state := IntV 1\<rparr>) override =
     Inr (scenario_mdp\<lparr>state := IntV 1, transition := \<lparr>shape = [1], items = [IntV 7]\<rparr>\<rparr>)"
proof -
  let ?m = "scenario_mdp\<lparr>state := IntV 1\<rparr>"
  obtain m' where m': "update ?m override = Inr m'" "state m' = state ?m"
      "variant m' = variant ?m"
      "np_array (PList [PNum (IntV 7)]) = Inr (transition m')"
      "reward m' = reward ?m" "terminal m' = terminal ?m"
    using update_replaces_present_tables_only [of override ?m, rule_format, OF convertible_override]
    by (auto simp: override_def)
  from m'(4) have "transition m' = \<lparr>shape = [1], items = [IntV 7]\<rparr>"
    by (simp add: np_array_def unify_def is_float_def below_int64_def above_uint64_def above_int64_def negative_int_def)
  with m'(2,3,5,6) have "m' = ?m\<lparr>transition := \<lparr>shape = [1], items = [IntV 7]\<rparr>\<rparr>"
    by (intro MDP.equality) simp_all
  with m'(1) show ?thesis by (simp add: convertible_override)
qed

text \<open>
  C10. \<open>update\<close> does not read the mode key: changing it in the supplied configuration
  changes nothing, and the class of the model is never changed. The copy that
  \<open>copy_with_config\<close> returns stores the supplied configuration, mode included, while its
  model keeps the class of the original: it is stepped by the original class's \<open>step\<close> and
  \<open>to_config\<close> emits the original class's mode tag.
\<close>

theorem update_ignores_mode:
  "update m (c\<lparr>cfg_mode := md\<rparr>) = update m c \<and>
   (\<forall>m'. update m c = Inr m' \<longrightarrow> variant m' = variant m) \<and>
   (convertible c \<longrightarrow>
     (\<exists>env'. copy_with_config env c = Inr env' \<and> config env' = c \<and>
        variant (mdp env') = variant (mdp env) \<and>
        cfg_mode (to_config (mdp env')) = Some (mode_tag (variant (mdp env))) \<and>
        (\<forall>a r. step (mdp env') a r =
           (case variant (mdp env) of
              Deterministic \<Rightarrow> DeterministicMDP_step (mdp env') a r
            | Stochastic \<Rightarrow> StochasticMDP_step (mdp env') a r))))"
proof (intro conjI allI impI)
  show "update m (c\<lparr>cfg_mode := md\<rparr>) = update m c"
    by (simp add: update_def)
next
  fix m' assume "update m c = Inr m'"
  then show "variant m' = variant m" by (rule update_variant)
next
  assume c: "convertible c"
  obtain m' where m': "update (mdp env) c = Inr m'"
    using update_result [OF c] by blast
  then have v: "variant m' = variant (mdp env)" by (rule update_variant)
  have "copy_with_config env c = Inr (env\<lparr>config := c, mdp := m'\<rparr>)"
    using m' by (simp add: copy_with_config_def)
  moreover have "cfg_mode (to_config m') = Some (mode_tag (variant (mdp env)))"
    using v by (simp add: to_config_def mode_tag_def DeterministicMDP_to_config_def
        StochasticMDP_to_config_def split: variant.splits)
  moreover have "\<forall>a r. step m' a r =
           (case variant (mdp env) of
              Deterministic \<Rightarrow> DeterministicMDP_step m' a r
            | Stochastic \<Rightarrow> StochasticMDP_step m' a r)"
    using v by (simp add: step_def)
  ultimately show "\<exists>env'. copy_with_config env c = Inr env' \<and> config env' = c \<and>
        variant (mdp env') = variant (mdp env) \<and>
        cfg_mode (to_config (mdp env')) = Some (mode_tag (variant (mdp env))) \<and>
        (\<forall>a r. step (mdp env') a r =
           (case variant (mdp env) of
              Deterministic \<Rightarrow> DeterministicMDP_step (mdp env') a r
            | Stochastic \<Rightarrow> StochasticMDP_step (mdp env') a r))"
    using v by (simp split: variant.splits)
qed

theorem update_ignores_mode_witness:
  "convertible override \<and>
   (\<exists>env'. copy_with_config scenario_env override = Inr env' \<and>
      cfg_mode (config env') = Some ''stochastic'' \<and>
      variant (mdp env') = Deterministic \<and>
      cfg_mode (to_config (mdp env')) = Some ''deterministic'')"
proof -
  obtain env' where e: "copy_with_config scenario_env override = Inr env'"
      "config env' = override" "variant (mdp env') = variant (mdp scenario_env)"
      "cfg_mode (to_config (mdp env')) = Some (mode_tag (variant (mdp scenario_env)))"
    using update_ignores_mode [where c = override and env = scenario_env,
        THEN conjunct2, THEN conjunct2, rule_format, OF convertible_override]
    by blast
  have "cfg_mode (config env') = Some ''stochastic''"
    using e(2) by (simp add: override_def)
  moreover have "variant (mdp env') = Deterministic"
    using e(3) by (simp add: scenario_env_def scenario_mdp_def)
  moreover have "cfg_mode (to_config (mdp env')) = Some ''deterministic''"
    using e(4) by (simp add: scenario_env_def scenario_mdp_def mode_tag_def)
  ultimately show ?thesis
    using e(1) convertible_override by blast
qed

section \<open>Construction from a configuration\<close>

lemma DeterministicMDP_Inl: "DeterministicMDP tr rw te = Inl e \<Longrightarrow> e = IndexError"
  by (auto simp: DeterministicMDP_def Let_def split: if_splits list.splits option.splits)

lemma DeterministicMDP_Inr:
  assumes "DeterministicMDP tr rw (Some te) = Inr m"
  shows "variant m = Deterministic \<and> state m = IntV 0 \<and> transition m = tr \<and> reward m = rw \<and>
     (if np_size te = 0 then \<exists>n ns. shape tr = n # ns \<and> terminal m = np_zeros [n]
      else terminal m = te)"
  using assms by (auto simp: DeterministicMDP_def Let_def split: if_splits list.splits)

lemma DeterministicMDP_first_axis:
  "shape tr = n # ns \<Longrightarrow>
   DeterministicMDP tr rw (Some te) =
     Inr \<lparr>variant = Deterministic, state = IntV 0, transition = tr, reward = rw,
          terminal = (if np_size te = 0 then np_zeros [n] else te)\<rparr>"
  by (simp add: DeterministicMDP_def Let_def)

lemma StochasticMDP_Inl: "StochasticMDP tr rw te = Inl e \<Longrightarrow> e = IndexError"
  by (auto simp: StochasticMDP_def split: sum.splits dest: DeterministicMDP_Inl)

lemma StochasticMDP_Inr:
  assumes "StochasticMDP tr rw (Some te) = Inr m"
  shows "variant m = Stochastic \<and> state m = IntV 0 \<and> transition m = tr \<and> reward m = rw \<and>
     (if np_size te = 0 then \<exists>n ns. shape tr = n # ns \<and> terminal m = np_zeros [n]
      else terminal m = te)"
proof -
  from assms obtain m0 where m0: "DeterministicMDP tr rw (Some te) = Inr m0"
      and m: "m = m0\<lparr>variant := Stochastic\<rparr>"
    by (auto simp: StochasticMDP_def split: sum.splits)
  from DeterministicMDP_Inr [OF m0] m show ?thesis
    by (auto split: if_splits)
qed

lemma StochasticMDP_first_axis:
  "shape tr = n # ns \<Longrightarrow>
   StochasticMDP tr rw (Some te) =
     Inr \<lparr>variant = Stochastic, state = IntV 0, transition = tr, reward = rw,
          terminal = (if np_size te = 0 then np_zeros [n] else te)\<rparr>"
  by (simp add: StochasticMDP_def DeterministicMDP_first_axis)

lemma draws_total: "\<exists>xs r'. draws g k r = (xs, r')"
  by (cases "draws g k r") simp

lemma rand_total: "\<exists>a r'. rand sh r = (a, r')"
  by (cases "rand sh r") simp

lemma randomize_Inr:
  assumes "randomize m r = Inr (m', r')"
  shows "variant m' = variant m \<and> state m' = state m \<and> terminal m' = terminal m"
  using assms
  by (auto simp: randomize_def DeterministicMDP_randomize_def StochasticMDP_randomize_def
      choice_range_def and_then_eq_Inr split: variant.splits list.splits if_splits prod.splits)

lemma randomize_Inl:
  assumes "randomize m r = Inl e"
  shows "e \<noteq> ConfigurationError"
  using assms
  by (auto simp: randomize_def DeterministicMDP_randomize_def StochasticMDP_randomize_def
      choice_range_def ConfigurationError_def and_then_def
      split: variant.splits list.splits if_splits prod.splits sum.splits)

lemma randomize_first_axis:
  assumes "shape (transition m) = n # ns"
  shows "\<exists>m' r'. randomize m r = Inr (m', r')"
  using assms
  by (auto simp: randomize_def DeterministicMDP_randomize_def StochasticMDP_randomize_def
      choice_range_def split: variant.splits prod.splits)

lemma from_config_unfold:
  assumes "convertible c"
  shows "from_config c r =
     and_then (if cfg_mode c = Some ''deterministic''
               then DeterministicMDP
                      \<lparr>shape = py_shape (get_table (cfg_transition c)),
                       items = unify (leaves (get_table (cfg_transition c)))\<rparr>
                      \<lparr>shape = py_shape (get_table (cfg_reward c)),
                       items = unify (leaves (get_table (cfg_reward c)))\<rparr>
                      (Some \<lparr>shape = py_shape (get_table (cfg_terminal c)),
                             items = unify (leaves (get_table (cfg_terminal c)))\<rparr>)
               else if cfg_mode c = Some ''stochastic''
               then StochasticMDP
                      \<lparr>shape = py_shape (get_table (cfg_transition c)),
                       items = unify (leaves (get_table (cfg_transition c)))\<rparr>
                      \<lparr>shape = py_shape (get_table (cfg_reward c)),
                       items = unify (leaves (get_table (cfg_reward c)))\<rparr>
                      (Some \<lparr>shape = py_shape (get_table (cfg_terminal c)),
                             items = unify (leaves (get_table (cfg_terminal c)))\<rparr>)
               else Inl ConfigurationError) (\<lambda>m.
       if (case cfg_random c of None \<Rightarrow> False | Some b \<Rightarrow> b) then randomize m r
       else Inr (m, r))"
  using assms by (simp add: from_config_def convertible_def np_array_rectangular)

lemma from_config_bad_mode:
  assumes "convertible c" "cfg_mode c \<noteq> Some ''deterministic''" "cfg_mode c \<noteq> Some ''stochastic''"
  shows "from_config c r = Inl ConfigurationError"
  using assms by (simp add: from_config_unfold)

lemma from_config_Inl_good_mode:
  assumes "convertible c" "cfg_mode c = Some ''deterministic'' \<or> cfg_mode c = Some ''stochastic''"
    and "from_config c r = Inl e"
  shows "e \<noteq> ConfigurationError"
proof -
  have "IndexError \<noteq> ConfigurationError" by (simp add: ConfigurationError_def)
  with assms show ?thesis
    unfolding from_config_unfold [OF assms(1)]
    by (auto simp: and_then_def
        split: sum.splits if_splits dest: DeterministicMDP_Inl StochasticMDP_Inl randomize_Inl)
qed

lemma from_config_Inr_variant:
  assumes "convertible c" "from_config c r = Inr (m, r')"
  shows "cfg_mode c = Some (mode_tag (variant m))"
  using assms(2) unfolding from_config_unfold [OF assms(1)]
  by (auto simp: and_then_eq_Inr mode_tag_def
      split: if_splits dest!: DeterministicMDP_Inr StochasticMDP_Inr randomize_Inr)

lemma from_config_first_axis:
  assumes "convertible c" "py_shape (get_table (cfg_transition c)) = S # rest"
    and "cfg_mode c = Some ''deterministic'' \<or> cfg_mode c = Some ''stochastic''"
  shows "\<exists>m r'. from_config c r = Inr (m, r') \<and>
     terminal m =
       (if prod_list (py_shape (get_table (cfg_terminal c))) = 0 then np_zeros [S]
        else \<lparr>shape = py_shape (get_table (cfg_terminal c)),
              items = unify (leaves (get_table (cfg_terminal c)))\<rparr>)"
proof -
  let ?tr = "\<lparr>shape = py_shape (get_table (cfg_transition c)),
              items = unify (leaves (get_table (cfg_transition c)))\<rparr>"
  let ?rw = "\<lparr>shape = py_shape (get_table (cfg_reward c)),
              items = unify (leaves (get_table (cfg_reward c)))\<rparr>"
  let ?te = "\<lparr>shape = py_shape (get_table (cfg_terminal c)),
              items = unify (leaves (get_table (cfg_terminal c)))\<rparr>"
  let ?m = "\<lambda>v. \<lparr>variant = v, state = IntV 0, transition = ?tr, reward = ?rw,
          terminal = (if np_size ?te = 0 then np_zeros [S] else ?te)\<rparr>"
  have "mode_tag Deterministic = ''deterministic''" "mode_tag Stochastic = ''stochastic''"
    by (simp_all add: mode_tag_def)
  with assms(3) obtain v where v: "cfg_mode c = Some (mode_tag v)"
    by metis
  have sh: "shape ?tr = S # rest" using assms(2) by simp
  have eq: "from_config c r =
      (if (case cfg_random c of None \<Rightarrow> False | Some b \<Rightarrow> b) then randomize (?m v) r
       else Inr (?m v, r))"
    unfolding from_config_unfold [OF assms(1)]
    using v DeterministicMDP_first_axis [OF sh] StochasticMDP_first_axis [OF sh]
    by (cases v) (simp_all add: mode_tag_def)
  show ?thesis
  proof (cases "case cfg_random c of None \<Rightarrow> False | Some b \<Rightarrow> b")
    case False
    with eq show ?thesis by (simp add: np_size_def)
  next
    case True
    have "shape (transition (?m v)) = S # rest" using sh by simp
    from randomize_first_axis [OF this, of r]
    obtain m' r' where m': "randomize (?m v) r = Inr (m', r')" by blast
    from randomize_Inr [OF m'] have "terminal m' = terminal (?m v)" by simp
    with eq True m' show ?thesis by (simp add: np_size_def)
  qed
qed

lemma convertible_scenario: "convertible scenario"
  by (simp add: convertible_def scenario_def get_table_def rectangular_def)

lemma from_config_not_convertible:
  assumes "\<not> convertible c"
  shows "from_config c r = Inl (ValueError ''inhomogeneous shape'')"
  using assms
  by (auto simp: from_config_def convertible_def rectangular_def np_array_def)

lemma from_config_Inr_convertible: "from_config c r = Inr x \<Longrightarrow> convertible c"
  using from_config_not_convertible [of c r] by auto

lemma from_config_ConfigurationError_convertible:
  "from_config c r = Inl ConfigurationError \<Longrightarrow> convertible c"
  using from_config_not_convertible [of c r] by (auto simp: ConfigurationError_def)

text \<open>
  C5. \<open>from_config\<close> raises the unknown-mode error only if the mode key is absent or is
  neither \<open>deterministic\<close> nor \<open>stochastic\<close>, and it does raise it for every such
  configuration whose tables numpy accepts; an exception carries no model. A model that is
  returned has the class the mode names, and with a recognised mode a model is returned
  whenever numpy accepts the tables and the transition table has a first axis.
\<close>

theorem from_config_unknown_mode:
  "(from_config c r = Inl ConfigurationError \<longrightarrow>
      cfg_mode c \<noteq> Some ''deterministic'' \<and> cfg_mode c \<noteq> Some ''stochastic'') \<and>
   (convertible c \<and> cfg_mode c \<noteq> Some ''deterministic'' \<and> cfg_mode c \<noteq> Some ''stochastic'' \<longrightarrow>
      from_config c r = Inl ConfigurationError) \<and>
   (\<forall>m r'. from_config c r = Inr (m, r') \<longrightarrow> cfg_mode c = Some (mode_tag (variant m))) \<and>
   (convertible c \<and> (cfg_mode c = Some ''deterministic'' \<or> cfg_mode c = Some ''stochastic'') \<and>
    py_shape (get_table (cfg_transition c)) \<noteq> [] \<longrightarrow>
      (\<exists>m r'. from_config c r = Inr (m, r')))"
proof (intro impI conjI allI)
  assume e: "from_config c r = Inl ConfigurationError"
  then have c: "convertible c" by (rule from_config_ConfigurationError_convertible)
  from from_config_Inl_good_mode [OF c _ e]
  show "cfg_mode c \<noteq> Some ''deterministic''" "cfg_mode c \<noteq> Some ''stochastic''"
    by blast+
next
  assume "convertible c \<and> cfg_mode c \<noteq> Some ''deterministic'' \<and> cfg_mode c \<noteq> Some ''stochastic''"
  then show "from_config c r = Inl ConfigurationError"
    using from_config_bad_mode [of c r] by simp
next
  fix m r'
  assume m: "from_config c r = Inr (m, r')"
  then have "convertible c" by (rule from_config_Inr_convertible)
  from this m show "cfg_mode c = Some (mode_tag (variant m))" by (rule from_config_Inr_variant)
next
  assume h: "convertible c \<and>
      (cfg_mode c = Some ''deterministic'' \<or> cfg_mode c = Some ''stochastic'') \<and>
      py_shape (get_table (cfg_transition c)) \<noteq> []"
  then have c: "convertible c" by simp
  from h obtain S rest where "py_shape (get_table (cfg_transition c)) = S # rest"
    by (cases "py_shape (get_table (cfg_transition c))") auto
  from from_config_first_axis [OF c this, of r] h
  show "\<exists>m r'. from_config c r = Inr (m, r')" by blast
qed

theorem from_config_unknown_mode_witness:
  "convertible (scenario\<lparr>cfg_mode := None\<rparr>) \<and>
   from_config (scenario\<lparr>cfg_mode := None\<rparr>) zero_rng = Inl ConfigurationError \<and>
   convertible (scenario\<lparr>cfg_mode := Some ''tabular''\<rparr>) \<and>
   from_config (scenario\<lparr>cfg_mode := Some ''tabular''\<rparr>) zero_rng = Inl ConfigurationError"
proof -
  have c: "convertible (scenario\<lparr>cfg_mode := md\<rparr>)" for md
    using convertible_scenario by (simp add: convertible_def)
  have "from_config (scenario\<lparr>cfg_mode := None\<rparr>) zero_rng = Inl ConfigurationError"
    using from_config_unknown_mode [of "scenario\<lparr>cfg_mode := None\<rparr>" zero_rng,
        THEN conjunct2, THEN conjunct1] c [of None]
    by simp
  moreover
  have "from_config (scenario\<lparr>cfg_mode := Some ''tabular''\<rparr>) zero_rng = Inl ConfigurationError"
    using from_config_unknown_mode [of "scenario\<lparr>cfg_mode := Some ''tabular''\<rparr>" zero_rng,
        THEN conjunct2, THEN conjunct1] c [of "Some ''tabular''"]
    by simp
  ultimately show ?thesis using c by simp
qed

text \<open>
  C6. For a configuration with a recognised mode whose tables numpy accepts and whose
  transition table has a first axis of size \<open>S\<close>, \<open>from_config\<close> returns a model. If the
  terminal key is absent or its table has no elements, the model's terminal vector has
  shape \<open>[S]\<close> and every entry is zero; otherwise it is the array of the supplied table.
\<close>

theorem from_config_terminal_default:
  "convertible c \<and> (cfg_mode c = Some ''deterministic'' \<or> cfg_mode c = Some ''stochastic'') \<and>
   py_shape (get_table (cfg_transition c)) = S # rest \<longrightarrow>
     (\<exists>m r'. from_config c r = Inr (m, r') \<and>
        (cfg_terminal c = None \<longrightarrow>
           terminal m = \<lparr>shape = [S], items = replicate S (FloatV 0)\<rparr>) \<and>
        (\<forall>v te. cfg_terminal c = Some v \<and> np_array v = Inr te \<longrightarrow>
           (if np_size te = 0
            then terminal m = \<lparr>shape = [S], items = replicate S (FloatV 0)\<rparr>
            else terminal m = te)) \<and>
        (cfg_terminal c = None \<or>
         (\<exists>v te. cfg_terminal c = Some v \<and> np_array v = Inr te \<and> np_size te = 0) \<longrightarrow>
           length (items (terminal m)) = S \<and> (\<forall>x \<in> set (items (terminal m)). \<not> truthy x)))"
proof (intro impI)
  assume h: "convertible c \<and>
    (cfg_mode c = Some ''deterministic'' \<or> cfg_mode c = Some ''stochastic'') \<and>
    py_shape (get_table (cfg_transition c)) = S # rest"
  then have c: "convertible c" and sh: "py_shape (get_table (cfg_transition c)) = S # rest"
    and md: "cfg_mode c = Some ''deterministic'' \<or> cfg_mode c = Some ''stochastic''"
    by simp_all
  from from_config_first_axis [OF c sh md, of r]
  obtain m r' where m: "from_config c r = Inr (m, r')"
    and te: "terminal m =
       (if prod_list (py_shape (get_table (cfg_terminal c))) = 0 then np_zeros [S]
        else \<lparr>shape = py_shape (get_table (cfg_terminal c)),
              items = unify (leaves (get_table (cfg_terminal c)))\<rparr>)"
    by blast
  have z: "np_zeros [S] = \<lparr>shape = [S], items = replicate S (FloatV 0)\<rparr>"
    by (simp add: np_zeros_def)
  have a: "cfg_terminal c = None \<longrightarrow> terminal m = \<lparr>shape = [S], items = replicate S (FloatV 0)\<rparr>"
    using te z by (simp add: get_table_def)
  have b: "\<forall>v te. cfg_terminal c = Some v \<and> np_array v = Inr te \<longrightarrow>
           (if np_size te = 0
            then terminal m = \<lparr>shape = [S], items = replicate S (FloatV 0)\<rparr>
            else terminal m = te)"
  proof (intro allI impI)
    fix v a assume va: "cfg_terminal c = Some v \<and> np_array v = Inr a"
    with c have "rectangular v" by (simp add: convertible_def get_table_def)
    with va have "a = \<lparr>shape = py_shape v, items = unify (leaves v)\<rparr>"
      by (simp add: np_array_rectangular)
    with va te z show "if np_size a = 0
            then terminal m = \<lparr>shape = [S], items = replicate S (FloatV 0)\<rparr>
            else terminal m = a"
      by (simp add: get_table_def np_size_def)
  qed
  have d: "cfg_terminal c = None \<or>
         (\<exists>v te. cfg_terminal c = Some v \<and> np_array v = Inr te \<and> np_size te = 0) \<longrightarrow>
           length (items (terminal m)) = S \<and> (\<forall>x \<in> set (items (terminal m)). \<not> truthy x)"
  proof
    assume "cfg_terminal c = None \<or>
         (\<exists>v te. cfg_terminal c = Some v \<and> np_array v = Inr te \<and> np_size te = 0)"
    with a b have "terminal m = \<lparr>shape = [S], items = replicate S (FloatV 0)\<rparr>"
      by auto
    then show "length (items (terminal m)) = S \<and> (\<forall>x \<in> set (items (terminal m)). \<not> truthy x)"
      by (simp add: truthy_def to_real_def)
  qed
  show "\<exists>m r'. from_config c r = Inr (m, r') \<and>
        (cfg_terminal c = None \<longrightarrow>
           terminal m = \<lparr>shape = [S], items = replicate S (FloatV 0)\<rparr>) \<and>
        (\<forall>v te. cfg_terminal c = Some v \<and> np_array v = Inr te \<longrightarrow>
           (if np_size te = 0
            then terminal m = \<lparr>shape = [S], items = replicate S (FloatV 0)\<rparr>
            else terminal m = te)) \<and>
        (cfg_terminal c = None \<or>
         (\<exists>v te. cfg_terminal c = Some v \<and> np_array v = Inr te \<and> np_size te = 0) \<longrightarrow>
           length (items (terminal m)) = S \<and> (\<forall>x \<in> set (items (terminal m)). \<not> truthy x))"
    using m a b d by (intro exI [of _ m] exI [of _ r'] conjI)
qed

theorem from_config_terminal_default_witness:
  "convertible (scenario\<lparr>cfg_terminal := None\<rparr>) \<and>
   (\<exists>m r'. from_config (scenario\<lparr>cfg_terminal := None\<rparr>) zero_rng = Inr (m, r') \<and>
      terminal m = \<lparr>shape = [2], items = [FloatV 0, FloatV 0]\<rparr>)"
proof -
  let ?c = "scenario\<lparr>cfg_terminal := None\<rparr>"
  have h: "convertible ?c \<and>
      (cfg_mode ?c = Some ''deterministic'' \<or> cfg_mode ?c = Some ''stochastic'') \<and>
      py_shape (get_table (cfg_transition ?c)) = 2 # [1]"
    by (simp add: convertible_def scenario_def get_table_def rectangular_def)
  obtain m r' where m: "from_config ?c zero_rng = Inr (m, r')"
      "cfg_terminal ?c = None \<longrightarrow> terminal m = \<lparr>shape = [2], items = replicate 2 (FloatV 0)\<rparr>"
    using from_config_terminal_default [of ?c 2 "[1]" zero_rng, rule_format, OF h]
    by (elim exE conjE)
  from m(2) have "terminal m = \<lparr>shape = [2], items = [FloatV 0, FloatV 0]\<rparr>"
    by (simp add: numeral_2_eq_2)
  with m(1) h show ?thesis by blast
qed

section \<open>Episodes\<close>


lemma getitem1_mem: "getitem1 a s = Inr d \<Longrightarrow> d \<in> set (items a)"
  by (auto simp: getitem1_def and_then_eq_Inr split: list.splits if_splits)

lemma step_frame:
  assumes "step m a r = Inr ((s, rew, d, info), m', r')"
  shows "terminal m' = terminal m \<and> transition m' = transition m \<and> reward m' = reward m \<and>
     variant m' = variant m \<and> state m' = s \<and> d \<in> set (items (terminal m))"
  using assms
  by (auto simp: step_def DeterministicMDP_step_def StochasticMDP_step_def and_then_eq_Inr Let_def
      split: variant.splits dest: getitem1_mem)

lemma FiniteMDP_step_Inr:
  assumes "FiniteMDP_step env a = Inr ((s, rew, d, info), env')"
  shows "\<exists>d0 m' r'. step (mdp env) a (np_random env) = Inr ((s, rew, d0, info), m', r') \<and>
     d = py_or d0 (steps env > MAX_STEPS) \<and>
     env' = env\<lparr>mdp := m', np_random := r', steps := steps env + 1\<rparr>"
  using assms
  by (auto simp: FiniteMDP_step_def and_then_eq_Inr Let_def)

lemma FiniteMDP_step_all_zero:
  assumes "all_zero (terminal (mdp env))" "FiniteMDP_step env a = Inr (res, env')"
  shows "done_of res = Bool (steps env > MAX_STEPS) \<and> steps env' = steps env + 1 \<and>
     terminal (mdp env') = terminal (mdp env)"
proof -
  obtain s rew d info where res: "res = (s, rew, d, info)" by (cases res) auto
  from FiniteMDP_step_Inr [OF assms(2) [unfolded res]]
  obtain d0 m' r' where st: "step (mdp env) a (np_random env) = Inr ((s, rew, d0, info), m', r')"
    and d: "d = py_or d0 (steps env > MAX_STEPS)"
    and env': "env' = env\<lparr>mdp := m', np_random := r', steps := steps env + 1\<rparr>"
    by blast
  from step_frame [OF st]
  have te: "terminal m' = terminal (mdp env)" and "d0 \<in> set (items (terminal (mdp env)))"
    by simp_all
  with assms(1) have "\<not> truthy d0" by (simp add: all_zero_def)
  with d res env' te show ?thesis
    by (simp add: py_or_def done_of_def)
qed

lemma run_all_zero:
  "all_zero (terminal (mdp env)) \<Longrightarrow> run env as = Inr (rs, env') \<Longrightarrow>
   map done_of rs = map (\<lambda>k. Bool (steps env + int k > MAX_STEPS)) [0..<length as] \<and>
   steps env' = steps env + int (length as)"
proof (induction as arbitrary: env rs)
  case Nil
  then show ?case by simp
next
  case (Cons a as)
  from Cons.prems(2) obtain res env1 rs1 where
    s: "FiniteMDP_step env a = Inr (res, env1)" and r: "run env1 as = Inr (rs1, env')"
    and rs: "rs = res # rs1"
    by (auto simp: and_then_eq_Inr)
  from FiniteMDP_step_all_zero [OF Cons.prems(1) s]
  have d: "done_of res = Bool (steps env > MAX_STEPS)" and st: "steps env1 = steps env + 1"
    and te: "terminal (mdp env1) = terminal (mdp env)" by simp_all
  from Cons.prems(1) te have "all_zero (terminal (mdp env1))" by simp
  from Cons.IH [OF this r] st
  have ih: "map done_of rs1 = map (\<lambda>k. Bool (steps env + 1 + int k > MAX_STEPS)) [0..<length as]"
    "steps env' = steps env + 1 + int (length as)" by simp_all
  have "map (\<lambda>k. Bool (steps env + int k > MAX_STEPS)) [0..<length (a # as)] =
      Bool (steps env > MAX_STEPS) #
        map (\<lambda>k. Bool (steps env + 1 + int k > MAX_STEPS)) [0..<length as]"
    by (simp add: map_upt_Suc del: upt_Suc) (simp add: add.commute add.left_commute)
  with rs d ih show ?case by simp
qed

lemma twelve_flags:
  "map (\<lambda>k. Bool (0 + int k > MAX_STEPS)) [0..<12] = replicate 11 (Bool False) @ [Bool True]"
  by (simp add: MAX_STEPS_def upt_rec eval_nat_numeral)

lemma run_after_reset_all_zero:
  assumes "all_zero (terminal (mdp env))" "length as = 12"
    and "run (snd (FiniteMDP_reset env)) as = Inr (rs, env')"
  shows "map done_of rs = replicate 11 (Bool False) @ [Bool True]"
proof -
  let ?e = "snd (FiniteMDP_reset env)"
  have e: "steps ?e = 0" "terminal (mdp ?e) = terminal (mdp env)"
    by (simp_all add: FiniteMDP_reset_def reset_def)
  with assms(1) have "all_zero (terminal (mdp ?e))" by simp
  from run_all_zero [OF this assms(3)] e(1) assms(2) twelve_flags
  show ?thesis by simp
qed

lemma targets_in_rangeD:
  assumes "targets_in_range S m" "x \<in> set (items (transition m))"
  shows "\<exists>t. x = IntV t \<and> 0 \<le> t \<and> t < int S"
proof (cases x)
  case (IntV t)
  with assms show ?thesis by (auto simp: targets_in_range_def)
next
  case (FloatV u)
  with assms show ?thesis by (auto simp: targets_in_range_def)
next
  case NanV
  with assms show ?thesis by (auto simp: targets_in_range_def)
qed

text \<open>A deterministic model whose targets are in range steps from a state in range to a
  state in range.\<close>

lemma deterministic_step_closed:
  assumes "variant m = Deterministic" "shaped S A m" "targets_in_range S m"
    and "state m = IntV s" "0 \<le> s" "s < int S" "0 \<le> a" "a < int A"
  shows "\<exists>t rew d info. step m a r = Inr ((IntV t, rew, d, info), m\<lparr>state := IntV t\<rparr>, r) \<and>
     0 \<le> t \<and> t < int S"
proof -
  let ?k = "nat s * A + nat a"
  have "?k < S * A" using assms(5-8) by (intro flat_index_less) simp_all
  then have "items (transition m) ! ?k \<in> set (items (transition m))"
    using assms(2) by (simp add: shaped_def)
  from targets_in_rangeD [OF assms(3) this]
  obtain t where t: "items (transition m) ! ?k = IntV t" "0 \<le> t" "t < int S"
    by blast
  from DeterministicMDP_step_in_range [OF assms(2) assms(4-8), of r] assms(1) t
  show ?thesis by (simp add: step_def)
qed

lemma run_deterministic_returns:
  assumes "variant (mdp env) = Deterministic" "shaped S A (mdp env)"
    and "targets_in_range S (mdp env)"
    and "\<exists>s. state (mdp env) = IntV s \<and> 0 \<le> s \<and> s < int S"
    and "\<forall>a \<in> set as. 0 \<le> a \<and> a < int A"
  shows "\<exists>rs env'. run env as = Inr (rs, env')"
  using assms
proof (induction as arbitrary: env)
  case Nil
  then show ?case by simp
next
  case (Cons a as)
  from Cons.prems(4) obtain s where s: "state (mdp env) = IntV s" "0 \<le> s" "s < int S"
    by blast
  from Cons.prems(5) have a: "0 \<le> a" "a < int A" by simp_all
  from deterministic_step_closed [OF Cons.prems(1-3) s a, of "np_random env"]
  obtain t rew d info where
    st: "step (mdp env) a (np_random env) =
          Inr ((IntV t, rew, d, info), (mdp env)\<lparr>state := IntV t\<rparr>, np_random env)"
    and t: "0 \<le> t" "t < int S"
    by blast
  let ?env1 = "env\<lparr>mdp := (mdp env)\<lparr>state := IntV t\<rparr>, np_random := np_random env,
      steps := steps env + 1\<rparr>"
  have fs: "FiniteMDP_step env a =
      Inr ((IntV t, rew, py_or d (steps env > MAX_STEPS), info), ?env1)"
    using st by (simp add: FiniteMDP_step_def Let_def)
  have "\<exists>rs env'. run ?env1 as = Inr (rs, env')"
  proof (rule Cons.IH)
    show "variant (mdp ?env1) = Deterministic" using Cons.prems(1) by simp
    show "shaped S A (mdp ?env1)" using Cons.prems(2) by (simp add: shaped_def)
    show "targets_in_range S (mdp ?env1)" using Cons.prems(3) by (simp add: targets_in_range_def)
    show "\<exists>s. state (mdp ?env1) = IntV s \<and> 0 \<le> s \<and> s < int S" using t by simp
    show "\<forall>a \<in> set as. 0 \<le> a \<and> a < int A" using Cons.prems(5) by simp
  qed
  with fs show ?case by auto
qed

text \<open>
  C2. With \<open>MAX_STEPS = 10\<close> and a model whose terminal vector is all zero, twelve
  consecutive \<open>step\<close> calls after \<open>reset\<close> report done as \<open>False\<close> eleven times and
  \<open>True\<close> the twelfth time. This holds for every run of twelve calls that return, and a
  deterministic model with targets in range does return for every twelve actions in range.
  One call reports the model's flag when that is true and otherwise whether the step counter
  before the call exceeds \<open>MAX_STEPS\<close>, and then adds one to the counter.
\<close>

theorem done_on_twelfth_step:
  "(all_zero (terminal (mdp env)) \<and> length as = 12 \<longrightarrow>
      (\<forall>rs env'. run (snd (FiniteMDP_reset env)) as = Inr (rs, env') \<longrightarrow>
         map done_of rs = replicate 11 (Bool False) @ [Bool True])) \<and>
   (all_zero (terminal (mdp env)) \<and> length as = 12 \<and> variant (mdp env) = Deterministic \<and>
    shaped S A (mdp env) \<and> targets_in_range S (mdp env) \<and> 0 < S \<and>
    (\<forall>a \<in> set as. 0 \<le> a \<and> a < int A) \<longrightarrow>
      (\<exists>rs env'. run (snd (FiniteMDP_reset env)) as = Inr (rs, env') \<and>
         map done_of rs = replicate 11 (Bool False) @ [Bool True])) \<and>
   (\<forall>a s rew d info env1. FiniteMDP_step env a = Inr ((s, rew, d, info), env1) \<longrightarrow>
      steps env1 = steps env + 1 \<and>
      (\<exists>d0 m' r'. step (mdp env) a (np_random env) = Inr ((s, rew, d0, info), m', r') \<and>
         d = (if truthy d0 then Num d0 else Bool (steps env > 10)))) \<and>
   steps (snd (FiniteMDP_reset env)) = 0"
proof (intro conjI allI impI)
  fix rs env'
  assume "all_zero (terminal (mdp env)) \<and> length as = 12"
    and "run (snd (FiniteMDP_reset env)) as = Inr (rs, env')"
  then show "map done_of rs = replicate 11 (Bool False) @ [Bool True]"
    using run_after_reset_all_zero [of env as rs env'] by simp
next
  assume h: "all_zero (terminal (mdp env)) \<and> length as = 12 \<and> variant (mdp env) = Deterministic \<and>
    shaped S A (mdp env) \<and> targets_in_range S (mdp env) \<and> 0 < S \<and>
    (\<forall>a \<in> set as. 0 \<le> a \<and> a < int A)"
  let ?e = "snd (FiniteMDP_reset env)"
  have m: "mdp ?e = (mdp env)\<lparr>state := IntV 0\<rparr>"
    by (simp add: FiniteMDP_reset_def reset_def)
  have "\<exists>rs env'. run ?e as = Inr (rs, env')"
  proof (rule run_deterministic_returns)
    show "variant (mdp ?e) = Deterministic" using h m by simp
    show "shaped S A (mdp ?e)" using h m by (simp add: shaped_def)
    show "targets_in_range S (mdp ?e)" using h m by (simp add: targets_in_range_def)
    show "\<exists>s. state (mdp ?e) = IntV s \<and> 0 \<le> s \<and> s < int S" using h m by simp
    show "\<forall>a \<in> set as. 0 \<le> a \<and> a < int A" using h by simp
  qed
  then obtain rs env' where r: "run ?e as = Inr (rs, env')" by blast
  with h have "map done_of rs = replicate 11 (Bool False) @ [Bool True]"
    using run_after_reset_all_zero [of env as rs env'] by simp
  with r show "\<exists>rs env'. run ?e as = Inr (rs, env') \<and>
         map done_of rs = replicate 11 (Bool False) @ [Bool True]"
    by blast
next
  fix a s rew d info env1
  assume "FiniteMDP_step env a = Inr ((s, rew, d, info), env1)"
  from FiniteMDP_step_Inr [OF this]
  show "steps env1 = steps env + 1" by auto
next
  fix a s rew d info env1
  assume "FiniteMDP_step env a = Inr ((s, rew, d, info), env1)"
  from FiniteMDP_step_Inr [OF this]
  show "\<exists>d0 m' r'. step (mdp env) a (np_random env) = Inr ((s, rew, d0, info), m', r') \<and>
         d = (if truthy d0 then Num d0 else Bool (steps env > 10))"
    by (auto simp: py_or_def MAX_STEPS_def)
next
  show "steps (snd (FiniteMDP_reset env)) = 0"
    by (simp add: FiniteMDP_reset_def reset_def)
qed

theorem done_on_twelfth_step_witness:
  "all_zero (terminal (mdp default_env)) \<and> shaped 1 1 (mdp default_env) \<and>
   targets_in_range 1 (mdp default_env) \<and>
   (\<exists>rs env'. run (snd (FiniteMDP_reset default_env)) (replicate 12 0) = Inr (rs, env') \<and>
      map done_of rs =
        [Bool False, Bool False, Bool False, Bool False, Bool False, Bool False, Bool False,
         Bool False, Bool False, Bool False, Bool False, Bool True])"
proof -
  have h: "all_zero (terminal (mdp default_env)) \<and> length (replicate 12 (0::int)) = 12 \<and>
      variant (mdp default_env) = Deterministic \<and> shaped 1 1 (mdp default_env) \<and>
      targets_in_range 1 (mdp default_env) \<and> (0::nat) < 1 \<and>
      (\<forall>a \<in> set (replicate 12 (0::int)). 0 \<le> a \<and> a < int 1)"
    by (simp add: default_env_def default_mdp_def all_zero_def truthy_def to_real_def shaped_def
        targets_in_range_def)
  have r: "replicate 11 (Bool False) @ [Bool True] =
      [Bool False, Bool False, Bool False, Bool False, Bool False, Bool False, Bool False,
       Bool False, Bool False, Bool False, Bool False, Bool True]"
    by (simp add: eval_nat_numeral)
  show ?thesis
    using done_on_twelfth_step [of default_env "replicate 12 0" 1 1,
        THEN conjunct2, THEN conjunct1, rule_format, OF h] h
    unfolding r by blast
qed

section \<open>Randomisation\<close>

lemma draws_length: "length (fst (draws g k r)) = k"
proof (induction k arbitrary: r)
  case 0
  then show ?case by simp
next
  case (Suc k)
  obtain x r1 where g: "g r = (x, r1)" by (cases "g r") auto
  with Suc.IH [of r1] show ?case by (cases "draws g k r1") simp
qed

lemma draws_set:
  assumes "\<And>r. P (fst (g r))"
  shows "\<forall>x \<in> set (fst (draws g k r)). P x"
proof (induction k arbitrary: r)
  case 0
  then show ?case by simp
next
  case (Suc k)
  obtain x r1 where g: "g r = (x, r1)" by (cases "g r") auto
  from assms [of r] g have "P x" by simp
  with Suc.IH [of r1] g show ?case by (simp split: prod.splits)
qed

lemma random_sample_range:
  assumes "random_sample r = (u, r')"
  shows "0 \<le> u \<and> u < 1"
proof -
  have "r 0 mod 2 ^ 53 < (2 ^ 53 :: nat)" by simp
  then have "real (r 0 mod 2 ^ 53) < 2 ^ 53"
    by (metis of_nat_less_iff of_nat_numeral of_nat_power)
  with assms show ?thesis
    by (auto simp: random_sample_def rng_next_def)
qed

lemma randint_range:
  assumes "0 < n" "randint n r = (i, r')"
  shows "0 \<le> i \<and> i < int n"
  using assms by (auto simp: randint_def rng_next_def)

lemma rand_result:
  assumes "rand sh r = (a, r')"
  shows "shape a = sh \<and> length (items a) = prod_list sh \<and>
     (\<forall>x \<in> set (items a). \<exists>u. x = FloatV u \<and> 0 \<le> u \<and> u < 1)"
proof -
  let ?g = "\<lambda>r. case random_sample r of (u, r') \<Rightarrow> (FloatV u, r')"
  from assms have a: "a = \<lparr>shape = sh, items = fst (draws ?g (prod_list sh) r)\<rparr>"
    by (auto simp: rand_def split: prod.splits)
  have "\<exists>u. fst (?g r) = FloatV u \<and> 0 \<le> u \<and> u < 1" for r
    using random_sample_range [of r] by (cases "random_sample r") simp
  from draws_set [of "\<lambda>x. \<exists>u. x = FloatV u \<and> 0 \<le> u \<and> u < 1" ?g, OF this] a
  show ?thesis by (simp add: draws_length)
qed

lemma choice_range_result:
  assumes "choice_range n (n # rest) r = Inr (a, r')"
  shows "shape a = n # rest \<and> length (items a) = prod_list (n # rest) \<and>
     (\<forall>x \<in> set (items a). \<exists>i. x = IntV i \<and> 0 \<le> i \<and> i < int n)"
proof -
  let ?g = "\<lambda>r. case randint n r of (i, r') \<Rightarrow> (IntV i, r')"
  from assms have a: "a = \<lparr>shape = n # rest, items = fst (draws ?g (prod_list (n # rest)) r)\<rparr>"
    by (auto simp: choice_range_def split: prod.splits if_splits)
  show ?thesis
  proof (cases "n = 0")
    case True
    then have "prod_list (n # rest) = 0" by simp
    then have "fst (draws ?g (prod_list (n # rest)) r) = []"
      by (simp only: draws.simps fst_conv)
    with a True show ?thesis by simp
  next
    case False
    have "\<exists>i. fst (?g r) = IntV i \<and> 0 \<le> i \<and> i < int n" for r
      using randint_range [of n r] False by (cases "randint n r") simp
    from draws_set [of "\<lambda>x. \<exists>i. x = IntV i \<and> 0 \<le> i \<and> i < int n" ?g, OF this] a
    show ?thesis by (simp add: draws_length)
  qed
qed

lemma choice_range_total: "\<exists>a r'. choice_range n (n # rest) r = Inr (a, r')"
  by (auto simp: choice_range_def split: prod.splits)

text \<open>
  C9. \<open>randomize\<close> replaces the transition and reward tables by arrays that the generator
  returns for the shapes of the old tables, so the shapes are unchanged and the new arrays
  are filled. For the deterministic class (whose transition table has a first axis of size
  \<open>S\<close>) every new transition entry is an integer in \<open>[0, S)\<close>; every new reward, and for
  the stochastic class every new transition entry too, is a float in \<open>[0, 1)\<close>.
\<close>

theorem randomize_keeps_shapes:
  "(variant m = Deterministic \<and> shape (transition m) = S # rest \<longrightarrow>
      (\<exists>tr rw r1 r2.
         choice_range S (shape (transition m)) r = Inr (tr, r1) \<and>
         rand (shape (reward m)) r1 = (rw, r2) \<and>
         randomize m r = Inr (m\<lparr>transition := tr, reward := rw\<rparr>, r2) \<and>
         shape tr = shape (transition m) \<and>
         length (items tr) = prod_list (shape (transition m)) \<and>
         shape rw = shape (reward m) \<and>
         length (items rw) = prod_list (shape (reward m)) \<and>
         (\<forall>x \<in> set (items tr). \<exists>i. x = IntV i \<and> 0 \<le> i \<and> i < int S) \<and>
         (\<forall>x \<in> set (items rw). \<exists>u. x = FloatV u \<and> 0 \<le> u \<and> u < 1))) \<and>
   (variant m = Stochastic \<longrightarrow>
      (\<exists>tr rw r1 r2.
         rand (shape (transition m)) r = (tr, r1) \<and>
         rand (shape (reward m)) r1 = (rw, r2) \<and>
         randomize m r = Inr (m\<lparr>transition := tr, reward := rw\<rparr>, r2) \<and>
         shape tr = shape (transition m) \<and>
         length (items tr) = prod_list (shape (transition m)) \<and>
         shape rw = shape (reward m) \<and>
         length (items rw) = prod_list (shape (reward m)) \<and>
         (\<forall>x \<in> set (items tr). \<exists>u. x = FloatV u \<and> 0 \<le> u \<and> u < 1) \<and>
         (\<forall>x \<in> set (items rw). \<exists>u. x = FloatV u \<and> 0 \<le> u \<and> u < 1)))"
proof (intro conjI impI)
  assume h: "variant m = Deterministic \<and> shape (transition m) = S # rest"
  then have sh: "shape (transition m) = S # rest" by simp
  obtain tr r1 where tr: "choice_range S (S # rest) r = Inr (tr, r1)"
    using choice_range_total [of S rest r] by blast
  obtain rw r2 where rw: "rand (shape (reward m)) r1 = (rw, r2)"
    by (cases "rand (shape (reward m)) r1") auto
  have "randomize m r = Inr (m\<lparr>transition := tr, reward := rw\<rparr>, r2)"
    using h tr rw by (simp add: randomize_def DeterministicMDP_randomize_def)
  with choice_range_result [OF tr] rand_result [OF rw] tr rw sh
  show "\<exists>tr rw r1 r2.
         choice_range S (shape (transition m)) r = Inr (tr, r1) \<and>
         rand (shape (reward m)) r1 = (rw, r2) \<and>
         randomize m r = Inr (m\<lparr>transition := tr, reward := rw\<rparr>, r2) \<and>
         shape tr = shape (transition m) \<and>
         length (items tr) = prod_list (shape (transition m)) \<and>
         shape rw = shape (reward m) \<and>
         length (items rw) = prod_list (shape (reward m)) \<and>
         (\<forall>x \<in> set (items tr). \<exists>i. x = IntV i \<and> 0 \<le> i \<and> i < int S) \<and>
         (\<forall>x \<in> set (items rw). \<exists>u. x = FloatV u \<and> 0 \<le> u \<and> u < 1)"
    by (intro exI [of _ tr] exI [of _ rw] exI [of _ r1] exI [of _ r2]) simp
next
  assume h: "variant m = Stochastic"
  obtain tr r1 where tr: "rand (shape (transition m)) r = (tr, r1)"
    by (cases "rand (shape (transition m)) r") auto
  obtain rw r2 where rw: "rand (shape (reward m)) r1 = (rw, r2)"
    by (cases "rand (shape (reward m)) r1") auto
  have "randomize m r = Inr (m\<lparr>transition := tr, reward := rw\<rparr>, r2)"
    using h tr rw by (simp add: randomize_def StochasticMDP_randomize_def)
  with rand_result [OF tr] rand_result [OF rw] tr rw
  show "\<exists>tr rw r1 r2.
         rand (shape (transition m)) r = (tr, r1) \<and>
         rand (shape (reward m)) r1 = (rw, r2) \<and>
         randomize m r = Inr (m\<lparr>transition := tr, reward := rw\<rparr>, r2) \<and>
         shape tr = shape (transition m) \<and>
         length (items tr) = prod_list (shape (transition m)) \<and>
         shape rw = shape (reward m) \<and>
         length (items rw) = prod_list (shape (reward m)) \<and>
         (\<forall>x \<in> set (items tr). \<exists>u. x = FloatV u \<and> 0 \<le> u \<and> u < 1) \<and>
         (\<forall>x \<in> set (items rw). \<exists>u. x = FloatV u \<and> 0 \<le> u \<and> u < 1)"
    by (intro exI [of _ tr] exI [of _ rw] exI [of _ r1] exI [of _ r2]) simp
qed

theorem randomize_keeps_shapes_witness:
  "variant scenario_mdp = Deterministic \<and> shape (transition scenario_mdp) = 2 # [1] \<and>
   (\<exists>m' r'. randomize scenario_mdp (\<lambda>k. k + 1) = Inr (m', r') \<and>
      shape (transition m') = [2, 1] \<and> length (items (transition m')) = 2 \<and>
      shape (reward m') = [2, 1] \<and> length (items (reward m')) = 2 \<and>
      (\<forall>x \<in> set (items (transition m')). \<exists>i. x = IntV i \<and> 0 \<le> i \<and> i < 2))"
proof -
  have h: "variant scenario_mdp = Deterministic \<and> shape (transition scenario_mdp) = 2 # [1]"
    by (simp add: scenario_mdp_def)
  have s: "shape (transition scenario_mdp) = [2, 1]" "shape (reward scenario_mdp) = [2, 1]"
    by (simp_all add: scenario_mdp_def)
  obtain tr rw r2 where
    r: "randomize scenario_mdp (\<lambda>k. k + 1) = Inr (scenario_mdp\<lparr>transition := tr, reward := rw\<rparr>, r2)"
    and t: "shape tr = shape (transition scenario_mdp)"
      "length (items tr) = prod_list (shape (transition scenario_mdp))"
      "shape rw = shape (reward scenario_mdp)"
      "length (items rw) = prod_list (shape (reward scenario_mdp))"
      "\<forall>x \<in> set (items tr). \<exists>i. x = IntV i \<and> 0 \<le> i \<and> i < int 2"
    using randomize_keeps_shapes [of scenario_mdp 2 "[1]" "\<lambda>k. k + 1",
        THEN conjunct1, rule_format, OF h]
    by (elim exE conjE)
  show ?thesis
    using h r t unfolding s
    by (intro conjI exI [of _ "scenario_mdp\<lparr>transition := tr, reward := rw\<rparr>"] exI [of _ r2])
      simp_all
qed

section \<open>Serialisation round trip\<close>



























section \<open>Conversion to the stochastic class\<close>

lemma for_each_fold:
  assumes "\<And>x st. x \<in> set xs \<Longrightarrow> I st \<Longrightarrow> body x st = Inr (g x st) \<and> I (g x st)"
    and "I st"
  shows "for_each xs body st = Inr (fold g xs st) \<and> I (fold g xs st)"
  using assms
proof (induction xs arbitrary: st)
  case Nil
  then show ?case by simp
next
  case (Cons x xs)
  from Cons.prems(1) [of x st] Cons.prems(2)
  have b: "body x st = Inr (g x st)" and i: "I (g x st)" by simp_all
  have "for_each xs body (g x st) = Inr (fold g xs (g x st)) \<and> I (fold g xs (g x st))"
    by (rule Cons.IH) (use Cons.prems(1) i in auto)
  with b show ?case by simp
qed

lemma fold_nested:
  "fold (\<lambda>s. fold (h s) as) ss st = fold (\<lambda>(s, a). h s a) (List.product ss as) st"
proof (induction ss arbitrary: st)
  case Nil
  then show ?case by simp
next
  case (Cons s ss)
  have "fold (\<lambda>(s, a). h s a) (map (Pair s) as) st = fold (h s) as st"
    by (simp add: fold_map comp_def)
  with Cons.IH show ?case by simp
qed

lemma fold_list_update_nth:
  "j < length xs \<Longrightarrow>
   fold (\<lambda>p ys. ys[f p := v]) ps xs ! j = (if j \<in> f ` set ps then v else xs ! j)"
proof (induction ps arbitrary: xs)
  case Nil
  then show ?case by simp
next
  case (Cons p ps)
  then have "fold (\<lambda>p ys. ys[f p := v]) ps (xs[f p := v]) ! j =
      (if j \<in> f ` set ps then v else xs[f p := v] ! j)"
    by (intro Cons.IH) simp
  with Cons.prems show ?case by (auto simp: nth_list_update)
qed

lemma fold_list_update_length [simp]:
  "length (fold (\<lambda>p ys. ys[f p := v]) ps xs) = length xs"
  by (induction ps arbitrary: xs) simp_all

lemma flat_index_unique:
  assumes "q * n + k = q' * n + k'" "k < n" "k' < (n::nat)"
  shows "q = q' \<and> k = k'"
proof -
  from assms(2) have "(q * n + k) div n = q" "(q * n + k) mod n = k" by simp_all
  moreover from assms(3) have "(q' * n + k') div n = q'" "(q' * n + k') mod n = k'" by simp_all
  ultimately show ?thesis using assms(1) by metis
qed

lemma one_hot_replicate:
  "t < n \<Longrightarrow> map (\<lambda>k. if k = t then (1::real) else 0) [0..<n] =
     replicate t 0 @ 1 # replicate (n - Suc t) 0"
  by (rule nth_equalityI) (auto simp: nth_append nth_Cons')

lemma cumsum_append: "cumsum acc (xs @ ys) = cumsum acc xs @ cumsum (acc + sum_list xs) ys"
  by (induction xs arbitrary: acc) (simp_all add: add.assoc)

lemma cumsum_zeros: "cumsum acc (replicate k 0) = replicate k acc"
  by (induction k) simp_all

lemma cumsum_one_hot:
  "t < n \<Longrightarrow> cumsum 0 (replicate t 0 @ 1 # replicate (n - Suc t) 0) =
     replicate t 0 @ replicate (n - t) 1"
proof -
  assume t: "t < n"
  have "cumsum 0 (replicate t 0 @ 1 # replicate (n - Suc t) 0) =
      replicate t 0 @ 1 # replicate (n - Suc t) 1"
    by (simp add: cumsum_append cumsum_zeros sum_list_replicate)
  also have "1 # replicate (n - Suc t) (1::real) = replicate (Suc (n - Suc t)) 1" by simp
  also have "Suc (n - Suc t) = n - t" using t by simp
  finally show ?thesis .
qed

lemma searchsorted_step:
  assumes "0 \<le> u" "u < 1"
  shows "searchsorted_right (replicate t 0 @ replicate (Suc k) 1) u = t"
  using assms by (induction t) simp_all


lemma choice_p_one_hot:
  assumes "t < n"
  shows "choice_p n \<lparr>shape = [n], items = one_hot n t\<rparr> r = Inr (IntV (int t), snd (random_sample r))"
proof -
  let ?ps = "map (\<lambda>k. if k = t then (1::real) else 0) [0..<n]"
  have ps: "map to_real (one_hot n t) = ?ps"
    by (simp add: one_hot_def to_real_def comp_def if_distrib cong: if_cong)
  have rep: "?ps = replicate t 0 @ 1 # replicate (n - Suc t) 0"
    using assms by (rule one_hot_replicate)
  have nonneg: "\<not> (\<exists>x \<in> set ?ps. x < 0)" by auto
  have total: "sum_list ?ps = 1" unfolding rep by (simp add: sum_list_replicate)
  have cdf: "cumsum 0 ?ps = replicate t 0 @ replicate (n - t) 1"
    unfolding rep using assms by (rule cumsum_one_hot)
  from assms obtain k where k: "n - t = Suc k" by (cases "n - t") auto
  have lst: "last (cumsum 0 ?ps) = 1" unfolding cdf k by simp
  obtain u r' where u: "random_sample r = (u, r')" by (cases "random_sample r") auto
  have "0 \<le> u" "u < 1"
  proof -
    have "r 0 mod 2 ^ 53 < (2 ^ 53 :: nat)" by simp
    then have "real (r 0 mod 2 ^ 53) < 2 ^ 53"
      by (metis of_nat_less_iff of_nat_numeral of_nat_power)
    with u show "0 \<le> u" "u < 1" by (auto simp: random_sample_def rng_next_def)
  qed
  then have idx: "searchsorted_right (cumsum 0 ?ps) u = t"
    unfolding cdf k by (rule searchsorted_step)
  have "length (one_hot n t) = n" "NanV \<notin> set (one_hot n t)"
    by (auto simp: one_hot_def)
  with assms ps nonneg total lst idx u show ?thesis
    by (simp add: choice_p_def np_size_def Let_def)
qed

lemma setitem3_in_range:
  assumes "shape nt = [n, A, n]" "s < n" "a < A" "0 \<le> t" "t < int n"
  shows "setitem3 nt (int s) (int a) t =
     Inr (nt\<lparr>items := (items nt)[(s * A + a) * n + nat t := FloatV 1]\<rparr>)"
  using assms by (simp add: setitem3_def)


lemma fold_items:
  "items (fold (\<lambda>p nt. nt\<lparr>items := (items nt)[pos p := v]\<rparr>) ps (nt::ndarray)) =
     fold (\<lambda>p ys. ys[pos p := v]) ps (items nt) \<and>
   shape (fold (\<lambda>p nt. nt\<lparr>items := (items nt)[pos p := v]\<rparr>) ps nt) = shape nt"
  by (induction ps arbitrary: nt) simp_all

lemma from_deterministic_result:
  assumes sh: "shaped S A m" and tg: "targets_in_range S m"
  shows "\<exists>nt. from_deterministic m =
       Inr \<lparr>variant = Stochastic, state = IntV 0, transition = nt, reward = reward m,
            terminal = terminal m\<rparr> \<and>
     shape nt = [S, A, S] \<and> length (items nt) = S * A * S \<and>
     (\<forall>s a k. s < S \<and> a < A \<and> k < S \<longrightarrow>
        items nt ! ((s * A + a) * S + k) =
          (if k = (case items (transition m) ! (s * A + a) of IntV t \<Rightarrow> nat t | FloatV _ \<Rightarrow> 0 | NanV \<Rightarrow> 0) then FloatV 1 else FloatV 0))"
proof -
  let ?tr = "transition m"
  define tgt where "tgt = (\<lambda>s a. case items ?tr ! (s * A + a) of
      IntV t \<Rightarrow> nat t | FloatV _ \<Rightarrow> 0 | NanV \<Rightarrow> 0)"
  define pos where "pos = (\<lambda>(s, a). (s * A + a) * S + tgt s a)"
  define G where "G = (\<lambda>p (nt::ndarray). nt\<lparr>items := (items nt)[pos p := FloatV 1]\<rparr>)"
  define body where "body = (\<lambda>(s::nat) (a::nat) new_transition.
      and_then (getitem2 ?tr (IntV (int s)) (int a)) (\<lambda>t.
      and_then (py_int t) (\<lambda>k.
        setitem3 new_transition (int s) (int a) k)))"
  from sh have trs: "shape ?tr = [S, A]" "length (items ?tr) = S * A"
    by (simp_all add: shaped_def)
  have entry: "\<exists>t. items ?tr ! (s * A + a) = IntV t \<and> 0 \<le> t \<and> t < int S"
    if "s < S" "a < A" for s a
  proof -
    from that have "s * A + a < S * A" by (rule flat_index_less)
    then have "items ?tr ! (s * A + a) \<in> set (items ?tr)" using trs by simp
    from targets_in_rangeD [OF tg this] show ?thesis .
  qed
  have tgt_less: "tgt s a < S" if "s < S" "a < A" for s a
    using entry [OF that] by (auto simp: tgt_def)
  have inner_step: "body s a nt = Inr (G (s, a) nt) \<and> shape (G (s, a) nt) = [S, A, S]"
    if "s < S" "a \<in> set [0..<A]" "shape nt = [S, A, S]" for s a and nt :: ndarray
  proof -
    from that have a: "a < A" by simp
    from entry [OF that(1) a] obtain t where
      t: "items ?tr ! (s * A + a) = IntV t" "0 \<le> t" "t < int S" by blast
    have "getitem2 ?tr (IntV (int s)) (int a) = Inr (IntV t)"
      using getitem2_in_range [OF trs, of "int s" "int a"] that(1) a t by simp
    moreover have "setitem3 nt (int s) (int a) t = Inr (G (s, a) nt)"
      using setitem3_in_range [OF that(3) that(1) a t(2,3)] t
      by (simp add: G_def pos_def tgt_def)
    ultimately show ?thesis using that(3) by (simp add: body_def py_int_def G_def)
  qed
  have inner: "for_each [0..<A] (body s) nt = Inr (fold (\<lambda>a. G (s, a)) [0..<A] nt) \<and>
      shape (fold (\<lambda>a. G (s, a)) [0..<A] nt) = [S, A, S]"
    if "s \<in> set [0..<S]" "shape nt = [S, A, S]" for s and nt :: ndarray
  proof (rule for_each_fold [where I = "\<lambda>nt. shape nt = [S, A, S]"])
    show "shape nt = [S, A, S]" by (rule that(2))
  next
    fix a and st :: ndarray assume "a \<in> set [0..<A]" "shape st = [S, A, S]"
    with that(1) show "body s a st = Inr (G (s, a) st) \<and> shape (G (s, a) st) = [S, A, S]"
      by (intro inner_step) simp_all
  qed
  have outer: "for_each [0..<S] (\<lambda>s. for_each [0..<A] (body s)) (np_zeros [S, A, S]) =
      Inr (fold (\<lambda>s. fold (\<lambda>a. G (s, a)) [0..<A]) [0..<S] (np_zeros [S, A, S])) \<and>
      shape (fold (\<lambda>s. fold (\<lambda>a. G (s, a)) [0..<A]) [0..<S] (np_zeros [S, A, S])) = [S, A, S]"
  proof (rule for_each_fold [where I = "\<lambda>nt. shape nt = [S, A, S]"])
    show "shape (np_zeros [S, A, S]) = [S, A, S]" by (simp add: np_zeros_def)
  next
    fix s and st :: ndarray assume "s \<in> set [0..<S]" "shape st = [S, A, S]"
    then show "for_each [0..<A] (body s) st = Inr (fold (\<lambda>a. G (s, a)) [0..<A] st) \<and>
        shape (fold (\<lambda>a. G (s, a)) [0..<A] st) = [S, A, S]"
      by (rule inner)
  qed
  define nt where "nt = fold G (List.product [0..<S] [0..<A]) (np_zeros [S, A, S])"
  have nt_eq: "fold (\<lambda>s. fold (\<lambda>a. G (s, a)) [0..<A]) [0..<S] (np_zeros [S, A, S]) = nt"
    unfolding nt_def fold_nested [of "\<lambda>s a. G (s, a)"] by simp
  have nt_shape: "shape nt = [S, A, S]" using outer unfolding nt_eq by simp
  have nt_items: "items nt =
      fold (\<lambda>p ys. ys[pos p := FloatV 1]) (List.product [0..<S] [0..<A])
        (replicate (S * A * S) (FloatV 0))"
    unfolding nt_def G_def using fold_items [of pos "FloatV 1" _ "np_zeros [S, A, S]"]
    by (simp add: np_zeros_def mult.assoc)
  have nt_len: "length (items nt) = S * A * S" unfolding nt_items by simp
  have nt_nth: "items nt ! ((s * A + a) * S + k) = (if k = tgt s a then FloatV 1 else FloatV 0)"
    if "s < S" "a < A" "k < S" for s a k
  proof -
    from that(1,2) have "s * A + a < S * A" by (rule flat_index_less)
    from flat_index_less [OF this that(3)]
    have j: "(s * A + a) * S + k < length (replicate (S * A * S) (FloatV 0))" by simp
    have mem: "((s * A + a) * S + k \<in> pos ` set (List.product [0..<S] [0..<A])) = (k = tgt s a)"
    proof
      assume "(s * A + a) * S + k \<in> pos ` set (List.product [0..<S] [0..<A])"
      then obtain s' a' where p: "s' < S" "a' < A"
          "(s * A + a) * S + k = (s' * A + a') * S + tgt s' a'"
        by (auto simp: pos_def)
      from flat_index_unique [OF p(3) that(3) tgt_less [OF p(1,2)]]
      have q: "s * A + a = s' * A + a'" and k: "k = tgt s' a'" by simp_all
      from flat_index_unique [OF q that(2) p(2)] k show "k = tgt s a" by simp
    next
      assume "k = tgt s a"
      with that(1,2) show "(s * A + a) * S + k \<in> pos ` set (List.product [0..<S] [0..<A])"
        by (auto simp: pos_def intro!: image_eqI [of _ _ "(s, a)"])
    qed
    show ?thesis
      unfolding nt_items fold_list_update_nth [OF j] mem using j by simp
  qed
  have te_eq: "(if np_size (terminal m) = 0 then np_zeros [S] else terminal m) = terminal m"
  proof (cases "np_size (terminal m) = 0")
    case True
    with sh have "S = 0" by (simp add: shaped_def np_size_def)
    with sh have "shape (terminal m) = [0]" "items (terminal m) = []"
      by (simp_all add: shaped_def)
    then have "terminal m = np_zeros [S]"
      using \<open>S = 0\<close> by (intro ndarray.equality) (simp_all add: np_zeros_def)
    then show ?thesis by simp
  next
    case False
    then show ?thesis by simp
  qed
  have "from_deterministic m =
      StochasticMDP nt (reward m) (Some (terminal m))"
    using trs outer unfolding nt_eq body_def by (simp add: from_deterministic_def)
  also have "\<dots> = Inr \<lparr>variant = Stochastic, state = IntV 0, transition = nt, reward = reward m,
            terminal = terminal m\<rparr>"
    using StochasticMDP_first_axis [of nt S "[A, S]"] nt_shape te_eq by simp
  finally show ?thesis
    using nt_shape nt_len nt_nth unfolding tgt_def by blast
qed


lemma getitem_row_in_range:
  assumes "shape a = [n, m, k]" "0 \<le> s" "s < int n" "0 \<le> j" "j < int m"
  shows "getitem_row a (IntV s) j =
     Inr \<lparr>shape = [k], items = take k (drop ((nat s * m + nat j) * k) (items a))\<rparr>"
  using assms by (simp add: getitem_row_def)

lemma row_one_hot:
  assumes "length xs = S * A * S" "s < S" "a < A"
    and "\<forall>k. k < S \<longrightarrow> xs ! ((s * A + a) * S + k) = (if k = t then FloatV 1 else FloatV 0)"
  shows "take S (drop ((s * A + a) * S) xs) = one_hot S t"
proof (rule nth_equalityI)
  from assms(2,3) have "s * A + a < S * A" by (rule flat_index_less)
  then have "Suc (s * A + a) * S \<le> S * A * S" by (intro mult_le_mono1) simp
  then have le: "(s * A + a) * S + S \<le> length xs" using assms(1) by simp
  then show len: "length (take S (drop ((s * A + a) * S) xs)) = length (one_hot S t)"
    by (simp add: one_hot_def)
  fix k assume "k < length (take S (drop ((s * A + a) * S) xs))"
  with len have k: "k < S" by (simp add: one_hot_def)
  with le have "take S (drop ((s * A + a) * S) xs) ! k = xs ! ((s * A + a) * S + k)"
    by simp
  with assms(4) k show "take S (drop ((s * A + a) * S) xs) ! k = one_hot S t ! k"
    by (simp add: one_hot_def)
qed

lemma converted_step:
  assumes sh: "shaped S A m" and tg: "targets_in_range S m" and v: "variant m = Deterministic"
    and s: "0 \<le> s" "s < int S" and a: "0 \<le> a" "a < int A"
    and sm: "from_deterministic m = Inr sm"
  shows "\<exists>t. getitem2 (transition m) (IntV s) a = Inr (IntV t) \<and> 0 \<le> t \<and> t < int S \<and>
     getitem_row (transition sm) (IntV s) a = Inr \<lparr>shape = [S], items = one_hot S (nat t)\<rparr> \<and>
     (\<forall>r. \<exists>rew d info info' r'.
        step (m\<lparr>state := IntV s\<rparr>) a r =
          Inr ((IntV t, rew, d, info), m\<lparr>state := IntV t\<rparr>, r) \<and>
        step (sm\<lparr>state := IntV s\<rparr>) a r =
          Inr ((IntV t, rew, d, info'), sm\<lparr>state := IntV t\<rparr>, r'))"
proof -
  from from_deterministic_result [OF sh tg] sm obtain nt where
    sm_eq: "sm = \<lparr>variant = Stochastic, state = IntV 0, transition = nt, reward = reward m,
            terminal = terminal m\<rparr>"
    and nt: "shape nt = [S, A, S]" "length (items nt) = S * A * S"
    and nth: "\<forall>s a k. s < S \<and> a < A \<and> k < S \<longrightarrow>
        items nt ! ((s * A + a) * S + k) =
          (if k = (case items (transition m) ! (s * A + a) of IntV t \<Rightarrow> nat t | FloatV _ \<Rightarrow> 0 | NanV \<Rightarrow> 0) then FloatV 1 else FloatV 0)"
    by auto
  let ?k = "nat s * A + nat a"
  from s a have sa: "nat s < S" "nat a < A" by simp_all
  then have "?k < S * A" by (rule flat_index_less)
  then have "items (transition m) ! ?k \<in> set (items (transition m))"
    using sh by (simp add: shaped_def)
  from targets_in_rangeD [OF tg this] obtain t where
    t: "items (transition m) ! ?k = IntV t" "0 \<le> t" "t < int S" by blast
  have g2: "getitem2 (transition m) (IntV s) a = Inr (IntV t)"
    using getitem2_in_range [of "transition m" S A s a] sh s a t by (simp add: shaped_def)
  have "take S (drop (?k * S) (items nt)) = one_hot S (nat t)"
    using row_one_hot [OF nt(2) sa, of "nat t"] nth sa t by simp
  with getitem_row_in_range [OF nt(1) s a]
  have row: "getitem_row nt (IntV s) a = Inr \<lparr>shape = [S], items = one_hot S (nat t)\<rparr>"
    by simp
  have det: "step (m\<lparr>state := IntV s\<rparr>) a r =
      Inr ((IntV t, items (reward m) ! ?k, items (terminal m) ! nat s,
            to_config (m\<lparr>state := IntV t\<rparr>)), m\<lparr>state := IntV t\<rparr>, r)" for r
    using DeterministicMDP_step_in_range [of S A "m\<lparr>state := IntV s\<rparr>" s a r] sh v s a t
    by (simp add: step_def shaped_def)
  have rw: "getitem2 (reward m) (IntV s) a = Inr (items (reward m) ! ?k)"
    using getitem2_in_range [of "reward m" S A s a] sh s a by (simp add: shaped_def)
  have te: "getitem1 (terminal m) (IntV s) = Inr (items (terminal m) ! nat s)"
    using getitem1_in_range [of "terminal m" S s] sh s by (simp add: shaped_def)
  from t have tn: "nat t < S" by simp
  have sto: "step (sm\<lparr>state := IntV s\<rparr>) a r =
      Inr ((IntV t, items (reward m) ! ?k, items (terminal m) ! nat s,
            to_config (sm\<lparr>state := IntV t\<rparr>)), sm\<lparr>state := IntV t\<rparr>, snd (random_sample r))" for r
    using rw te row nt(1) choice_p_one_hot [OF tn, of r] t(2)
    by (simp add: step_def StochasticMDP_step_def sm_eq Let_def)
  have row': "getitem_row (transition sm) (IntV s) a =
      Inr \<lparr>shape = [S], items = one_hot S (nat t)\<rparr>"
    using row by (simp add: sm_eq)
  have both: "\<forall>r. \<exists>rew d info info' r'.
        step (m\<lparr>state := IntV s\<rparr>) a r =
          Inr ((IntV t, rew, d, info), m\<lparr>state := IntV t\<rparr>, r) \<and>
        step (sm\<lparr>state := IntV s\<rparr>) a r =
          Inr ((IntV t, rew, d, info'), sm\<lparr>state := IntV t\<rparr>, r')"
  proof
    fix r
    from det [of r] sto [of r]
    show "\<exists>rew d info info' r'.
        step (m\<lparr>state := IntV s\<rparr>) a r =
          Inr ((IntV t, rew, d, info), m\<lparr>state := IntV t\<rparr>, r) \<and>
        step (sm\<lparr>state := IntV s\<rparr>) a r =
          Inr ((IntV t, rew, d, info'), sm\<lparr>state := IntV t\<rparr>, r')"
      by (intro exI conjI)
  qed
  from g2 t(2,3) row' both show ?thesis
    by (intro exI [of _ t] conjI)
qed

text \<open>
  C4. For a deterministic model with tables of shape \<open>S \<times> A\<close> whose transition entries are
  state indices below \<open>S\<close>, \<open>from_deterministic\<close> returns a stochastic model with the same
  reward and terminal tables and a transition table of shape \<open>S \<times> A \<times> S\<close> whose row at
  each \<open>(s, a)\<close> is 1 at the deterministic target and 0 elsewhere. Stepping the converted
  model from state \<open>s\<close> with action \<open>a\<close>, under any generator, reaches the same next state
  and returns the same reward (and done flag) as stepping the original.
\<close>

theorem from_deterministic_same_step:
  "variant m = Deterministic \<and> shaped S A m \<and> targets_in_range S m \<longrightarrow>
     (\<exists>sm. from_deterministic m = Inr sm \<and> variant sm = Stochastic \<and>
        reward sm = reward m \<and> terminal sm = terminal m \<and>
        shape (transition sm) = [S, A, S] \<and>
        (\<forall>s a. 0 \<le> s \<and> s < int S \<and> 0 \<le> a \<and> a < int A \<longrightarrow>
           (\<exists>t. getitem2 (transition m) (IntV s) a = Inr (IntV t) \<and> 0 \<le> t \<and> t < int S \<and>
              getitem_row (transition sm) (IntV s) a =
                Inr \<lparr>shape = [S], items = one_hot S (nat t)\<rparr> \<and>
              (\<forall>r. \<exists>rew d info info' r'.
                 step (m\<lparr>state := IntV s\<rparr>) a r =
                   Inr ((IntV t, rew, d, info), m\<lparr>state := IntV t\<rparr>, r) \<and>
                 step (sm\<lparr>state := IntV s\<rparr>) a r =
                   Inr ((IntV t, rew, d, info'), sm\<lparr>state := IntV t\<rparr>, r')))))"
proof
  assume h: "variant m = Deterministic \<and> shaped S A m \<and> targets_in_range S m"
  then have v: "variant m = Deterministic" and sh: "shaped S A m"
    and tg: "targets_in_range S m" by simp_all
  from from_deterministic_result [OF sh tg] obtain nt where
    sm: "from_deterministic m =
       Inr \<lparr>variant = Stochastic, state = IntV 0, transition = nt, reward = reward m,
            terminal = terminal m\<rparr>"
    and nt: "shape nt = [S, A, S]"
    by blast
  let ?sm = "\<lparr>variant = Stochastic, state = IntV 0, transition = nt, reward = reward m,
            terminal = terminal m\<rparr>"
  have "\<forall>s a. 0 \<le> s \<and> s < int S \<and> 0 \<le> a \<and> a < int A \<longrightarrow>
           (\<exists>t. getitem2 (transition m) (IntV s) a = Inr (IntV t) \<and> 0 \<le> t \<and> t < int S \<and>
              getitem_row (transition ?sm) (IntV s) a =
                Inr \<lparr>shape = [S], items = one_hot S (nat t)\<rparr> \<and>
              (\<forall>r. \<exists>rew d info info' r'.
                 step (m\<lparr>state := IntV s\<rparr>) a r =
                   Inr ((IntV t, rew, d, info), m\<lparr>state := IntV t\<rparr>, r) \<and>
                 step (?sm\<lparr>state := IntV s\<rparr>) a r =
                   Inr ((IntV t, rew, d, info'), ?sm\<lparr>state := IntV t\<rparr>, r')))"
    using converted_step [OF sh tg v _ _ _ _ sm] by blast
  moreover have "variant ?sm = Stochastic" "reward ?sm = reward m" "terminal ?sm = terminal m"
    "shape (transition ?sm) = [S, A, S]"
    using nt by simp_all
  ultimately show "\<exists>sm. from_deterministic m = Inr sm \<and> variant sm = Stochastic \<and>
        reward sm = reward m \<and> terminal sm = terminal m \<and>
        shape (transition sm) = [S, A, S] \<and>
        (\<forall>s a. 0 \<le> s \<and> s < int S \<and> 0 \<le> a \<and> a < int A \<longrightarrow>
           (\<exists>t. getitem2 (transition m) (IntV s) a = Inr (IntV t) \<and> 0 \<le> t \<and> t < int S \<and>
              getitem_row (transition sm) (IntV s) a =
                Inr \<lparr>shape = [S], items = one_hot S (nat t)\<rparr> \<and>
              (\<forall>r. \<exists>rew d info info' r'.
                 step (m\<lparr>state := IntV s\<rparr>) a r =
                   Inr ((IntV t, rew, d, info), m\<lparr>state := IntV t\<rparr>, r) \<and>
                 step (sm\<lparr>state := IntV s\<rparr>) a r =
                   Inr ((IntV t, rew, d, info'), sm\<lparr>state := IntV t\<rparr>, r'))))"
    using sm by (intro exI [of _ ?sm] conjI)
qed

theorem from_deterministic_same_step_witness:
  "variant scenario_mdp = Deterministic \<and> shaped 2 1 scenario_mdp \<and>
   targets_in_range 2 scenario_mdp \<and>
   (\<exists>sm. from_deterministic scenario_mdp = Inr sm \<and>
      getitem_row (transition sm) (IntV 1) 0 = Inr \<lparr>shape = [2], items = [FloatV 1, FloatV 0]\<rparr> \<and>
      (\<exists>rew d info info' r'.
         step (scenario_mdp\<lparr>state := IntV 1\<rparr>) 0 zero_rng =
           Inr ((IntV 0, rew, d, info), scenario_mdp\<lparr>state := IntV 0\<rparr>, zero_rng) \<and>
         step (sm\<lparr>state := IntV 1\<rparr>) 0 zero_rng =
           Inr ((IntV 0, rew, d, info'), sm\<lparr>state := IntV 0\<rparr>, r')))"
proof -
  have h: "variant scenario_mdp = Deterministic \<and> shaped 2 1 scenario_mdp \<and>
      targets_in_range 2 scenario_mdp"
    by (simp add: scenario_mdp_def shaped_def targets_in_range_def)
  obtain sm where sm: "from_deterministic scenario_mdp = Inr sm"
    and rest: "\<forall>s a. 0 \<le> s \<and> s < int 2 \<and> 0 \<le> a \<and> a < int 1 \<longrightarrow>
           (\<exists>t. getitem2 (transition scenario_mdp) (IntV s) a = Inr (IntV t) \<and> 0 \<le> t \<and>
              t < int 2 \<and>
              getitem_row (transition sm) (IntV s) a =
                Inr \<lparr>shape = [2], items = one_hot 2 (nat t)\<rparr> \<and>
              (\<forall>r. \<exists>rew d info info' r'.
                 step (scenario_mdp\<lparr>state := IntV s\<rparr>) a r =
                   Inr ((IntV t, rew, d, info), scenario_mdp\<lparr>state := IntV t\<rparr>, r) \<and>
                 step (sm\<lparr>state := IntV s\<rparr>) a r =
                   Inr ((IntV t, rew, d, info'), sm\<lparr>state := IntV t\<rparr>, r')))"
    using from_deterministic_same_step [of scenario_mdp 2 1, rule_format, OF h]
    by (elim exE conjE)
  have "(0::int) \<le> 1 \<and> (1::int) < int 2 \<and> (0::int) \<le> 0 \<and> (0::int) < int 1" by simp
  from rest [rule_format, OF this] obtain t where
    t: "getitem2 (transition scenario_mdp) (IntV 1) 0 = Inr (IntV t)"
    and row: "getitem_row (transition sm) (IntV 1) 0 =
        Inr \<lparr>shape = [2], items = one_hot 2 (nat t)\<rparr>"
    and st: "\<forall>r. \<exists>rew d info info' r'.
                 step (scenario_mdp\<lparr>state := IntV 1\<rparr>) 0 r =
                   Inr ((IntV t, rew, d, info), scenario_mdp\<lparr>state := IntV t\<rparr>, r) \<and>
                 step (sm\<lparr>state := IntV 1\<rparr>) 0 r =
                   Inr ((IntV t, rew, d, info'), sm\<lparr>state := IntV t\<rparr>, r')"
    by (elim exE conjE)
  from t have t0: "t = 0"
    by (simp add: scenario_mdp_def getitem2_def)
  have oh: "one_hot 2 (nat 0) = [FloatV 1, FloatV 0]"
    by (simp add: one_hot_def upt_rec)
  from sm row st [rule_format, of zero_rng] h show ?thesis
    unfolding t0 oh by (intro conjI exI [of _ sm]) simp_all
qed

end
